theory Spec2Isabelle
  imports Complex_Main
begin

section \<open>Numbers and errors\<close>

text \<open>
  The program computes with Python floats and unbounded Python integers.  Floats are
  modelled as exact reals: rounding, overflow and NaN are outside this model, and every
  statement below is a statement of exact arithmetic.  Python integers are \<open>int\<close>.
  A Python exception is a value: every function that can raise returns
  \<open>py_error + 'a\<close>, with \<open>Inl\<close> for the exception.
\<close>

datatype py_error = ZeroDivisionError

text \<open>Sequencing of computations that may raise: the first exception wins.\<close>

definition err_bind :: "py_error + 'a \<Rightarrow> ('a \<Rightarrow> py_error + 'b) \<Rightarrow> py_error + 'b" where
  "err_bind m f = (case m of Inl err \<Rightarrow> Inl err | Inr x \<Rightarrow> f x)"

text \<open>Float division \<open>a / b\<close>: raises on a zero divisor.\<close>

definition py_div :: "real \<Rightarrow> real \<Rightarrow> py_error + real" where
  "py_div a b = (if b = 0 then Inl ZeroDivisionError else Inr (a / b))"

text \<open>
  Float to an integer power \<open>x ** n\<close>: zero to a negative power raises, everything
  else is the integer power.
\<close>

definition py_pow :: "real \<Rightarrow> int \<Rightarrow> py_error + real" where
  "py_pow x n = (if x = 0 \<and> n < 0 then Inl ZeroDivisionError else Inr (x powi n))"

text \<open>\<open>int(x)\<close> on a float truncates towards zero.\<close>

definition py_int :: "real \<Rightarrow> int" where
  "py_int x = (if 0 \<le> x then \<lfloor>x\<rfloor> else \<lceil>x\<rceil>)"


section \<open>The calculation engine\<close>

text \<open>The fields of \<open>MortgageCalculatorEngine\<close>.\<close>

record engine =
  loan_amount :: real
  interest_rate :: real
  term_years :: int
  extra_payment :: real
  monthly_fee :: real

text \<open>One dictionary appended to \<open>schedule\<close>; the keys are prefixed with \<open>e_\<close>.\<close>

record schedule_entry =
  e_month :: int
  e_payment :: real
  e_principal :: real
  e_interest :: real
  e_balance :: real
  e_extra_payment :: real
  e_fee :: real

text \<open>The dictionary returned by \<open>calculate_amortization\<close>.\<close>

record amortization_result =
  schedule :: "schedule_entry list"
  total_interest :: real
  final_payment_month :: nat

text \<open>\<open>calculate_monthly_payment(self, monthly_rate, months)\<close>.\<close>

definition calculate_monthly_payment :: "engine \<Rightarrow> real \<Rightarrow> int \<Rightarrow> py_error + real" where
  "calculate_monthly_payment self monthly_rate months =
     (if monthly_rate = 0 then py_div (loan_amount self) (of_int months)
      else
        err_bind (py_pow (1 + monthly_rate) months) (\<lambda>p1.
        err_bind (py_pow (1 + monthly_rate) months) (\<lambda>p2.
          py_div (loan_amount self * monthly_rate * p1) (p2 - 1))))"

text \<open>
  The state of the \<open>for\<close> loop of \<open>calculate_amortization\<close>: the engine object itself
  (the loop assigns \<open>self.extra_payment\<close>), and the locals \<open>balance\<close>,
  \<open>total_interest\<close> and \<open>schedule\<close>.
\<close>

record loop_state =
  ls_self :: engine
  ls_balance :: real
  ls_total_interest :: real
  ls_schedule :: "schedule_entry list"

text \<open>
  One iteration of the loop body after the \<open>break\<close> test, for the month number
  \<open>month\<close>.
\<close>

definition amortization_step :: "real \<Rightarrow> real \<Rightarrow> int \<Rightarrow> loop_state \<Rightarrow> loop_state" where
  "amortization_step monthly_rate payment month s =
     (let interest = ls_balance s * monthly_rate;
          principal = payment - interest;
          total_payment = principal + extra_payment (ls_self s);
          clamp = (total_payment > ls_balance s);
          total_payment' = (if clamp then ls_balance s else total_payment);
          self' = (if clamp then (ls_self s)\<lparr>extra_payment := 0\<rparr> else ls_self s);
          balance' = ls_balance s - total_payment'
      in \<lparr>ls_self = self',
          ls_balance = balance',
          ls_total_interest = ls_total_interest s + interest,
          ls_schedule = ls_schedule s @
            [\<lparr>e_month = month,
              e_payment = total_payment' + monthly_fee self',
              e_principal = principal,
              e_interest = interest,
              e_balance = balance',
              e_extra_payment = extra_payment self',
              e_fee = monthly_fee self'\<rparr>]\<rparr>)"

text \<open>
  The loop \<open>for month in range(1, months + 1)\<close> over the list of its month numbers,
  leaving at \<open>break\<close> when the balance is not positive.
\<close>

fun amortization_loop :: "real \<Rightarrow> real \<Rightarrow> int list \<Rightarrow> loop_state \<Rightarrow> loop_state" where
  "amortization_loop monthly_rate payment [] s = s"
| "amortization_loop monthly_rate payment (month # ms) s =
     (if ls_balance s \<le> 0 then s
      else amortization_loop monthly_rate payment ms
             (amortization_step monthly_rate payment month s))"

text \<open>
  \<open>calculate_amortization(self)\<close>: the returned dictionary together with the engine
  as the call leaves it.  An exception of \<open>calculate_monthly_payment\<close> propagates
  before anything is assigned.
\<close>

definition calculate_amortization :: "engine \<Rightarrow> py_error + (amortization_result \<times> engine)" where
  "calculate_amortization self =
     (let monthly_rate = interest_rate self / 100 / 12;
          months = term_years self * 12
      in err_bind (calculate_monthly_payment self monthly_rate months) (\<lambda>payment.
           let s = amortization_loop monthly_rate payment [1..months]
                     \<lparr>ls_self = self, ls_balance = loan_amount self,
                      ls_total_interest = 0, ls_schedule = []\<rparr>
           in Inr (\<lparr>schedule = ls_schedule s,
                    total_interest = ls_total_interest s,
                    final_payment_month = length (ls_schedule s)\<rparr>,
                   ls_self s)))"



section \<open>The calculator: validation, payoff projection, yearly totals\<close>

text \<open>
  The entry fields of \<open>MortgageCalculator\<close> that \<open>validate_inputs\<close> and
  \<open>calculate\<close> read, each as the number \<open>get_float_value\<close> returns for it
  (a text that does not parse is rejected by \<open>validate_inputs\<close> before any
  computation and is not modelled), and the down payment mode of the radio buttons.
\<close>

datatype dp_mode = Auto | Manual

record inputs =
  loan_seeking_var :: real
  down_payment_var :: real
  down_payment_mode :: dp_mode
  interest_rate_var :: real
  principal_payment_var :: real
  extra_payment_var :: real
  monthly_fee_var :: real

text \<open>\<open>validate_inputs(self)\<close>: the checks in the order of the source.\<close>

definition validate_inputs :: "inputs \<Rightarrow> bool" where
  "validate_inputs i =
     (if loan_seeking_var i \<le> 0 then False
      else if loan_seeking_var i > 100000000 then False
      else if down_payment_var i < 0 then False
      else if down_payment_var i \<ge> loan_seeking_var i then False
      else if interest_rate_var i \<le> 0 then False
      else if interest_rate_var i > 30 then False
      else if principal_payment_var i < 0 then False
      else if extra_payment_var i < 0 then False
      else if monthly_fee_var i < 0 then False
      else True)"

text \<open>
  The loop \<open>for _ in range(months_with_extra)\<close> of \<open>calculate\<close>, on the pair
  \<open>(total_interest_with_extra, remaining_balance)\<close>.
\<close>

fun interest_with_extra_loop :: "real \<Rightarrow> real \<Rightarrow> int list \<Rightarrow> real \<times> real \<Rightarrow> real \<times> real" where
  "interest_with_extra_loop monthly_rate total_monthly_payment [] acc = acc"
| "interest_with_extra_loop monthly_rate total_monthly_payment (x # xs) acc =
     (case acc of (total_interest_with_extra, remaining_balance) \<Rightarrow>
        let interest = remaining_balance * monthly_rate
        in interest_with_extra_loop monthly_rate total_monthly_payment xs
             (total_interest_with_extra + interest,
              remaining_balance - total_monthly_payment))"

text \<open>
  The four lists that \<open>update_yearly_visualization\<close> plots, one element per year:
  \<open>yearly_base_principal\<close>, \<open>yearly_extra_principal\<close>, \<open>yearly_interest\<close> and
  \<open>yearly_total\<close>.
\<close>

record yearly_series =
  ys_base_principal :: "real list"
  ys_extra_principal :: "real list"
  ys_interest :: "real list"
  ys_total :: "real list"

text \<open>
  The inner loop \<open>for _ in range(12)\<close> of \<open>update_yearly_visualization\<close>, on the
  pair \<open>(yearly_interest_total, remaining_balance)\<close>; \<open>monthly_reduction\<close> is
  \<open>principal_payment + extra_payment\<close>.
\<close>

fun year_months_loop :: "real \<Rightarrow> real \<Rightarrow> int list \<Rightarrow> real \<times> real \<Rightarrow> real \<times> real" where
  "year_months_loop monthly_rate monthly_reduction [] acc = acc"
| "year_months_loop monthly_rate monthly_reduction (x # xs) acc =
     (case acc of (yearly_interest_total, remaining_balance) \<Rightarrow>
        if remaining_balance \<le> 0 then acc
        else
          let monthly_interest = remaining_balance * monthly_rate
          in year_months_loop monthly_rate monthly_reduction xs
               (yearly_interest_total + monthly_interest,
                remaining_balance - monthly_reduction))"

text \<open>
  The outer loop \<open>for _ in years_range\<close>, on the triple
  \<open>(remaining_balance, yearly_interest, yearly_total)\<close>; \<open>fixed_part\<close> is
  \<open>base_principal + extra_principal\<close> and \<open>fee_part\<close> is \<open>monthly_fee * 12\<close>.
\<close>

fun years_loop ::
  "real \<Rightarrow> real \<Rightarrow> real \<Rightarrow> real \<Rightarrow> int list \<Rightarrow> real \<times> real list \<times> real list
     \<Rightarrow> real \<times> real list \<times> real list" where
  "years_loop monthly_rate monthly_reduction fixed_part fee_part [] acc = acc"
| "years_loop monthly_rate monthly_reduction fixed_part fee_part (y # ys) acc =
     (case acc of (remaining_balance, yearly_interest, yearly_total) \<Rightarrow>
        case year_months_loop monthly_rate monthly_reduction [0..11] (0, remaining_balance) of
          (yearly_interest_total, remaining_balance') \<Rightarrow>
            years_loop monthly_rate monthly_reduction fixed_part fee_part ys
              (remaining_balance',
               yearly_interest @ [yearly_interest_total],
               yearly_total @ [fixed_part + yearly_interest_total + fee_part]))"

text \<open>
  \<open>update_yearly_visualization(self, loan_amount, monthly_rate, years,
  principal_payment, extra_payment, monthly_fee)\<close>: the yearly totals it computes
  (the drawing of the bars is not modelled).
\<close>

definition update_yearly_visualization ::
  "real \<Rightarrow> real \<Rightarrow> int \<Rightarrow> real \<Rightarrow> real \<Rightarrow> real \<Rightarrow> yearly_series" where
  "update_yearly_visualization loan_amount' monthly_rate years principal_payment
     extra_payment' monthly_fee' =
     (let years_range = (if years > 0 then [1..years] else [1..1]);
          base_principal = principal_payment * 12;
          extra_principal = extra_payment' * 12
      in case years_loop monthly_rate (principal_payment + extra_payment')
                (base_principal + extra_principal) (monthly_fee' * 12) years_range
                (loan_amount', [], []) of
           (remaining_balance, yearly_interest, yearly_total) \<Rightarrow>
             \<lparr>ys_base_principal = replicate (length years_range) base_principal,
              ys_extra_principal = replicate (length years_range) extra_principal,
              ys_interest = yearly_interest,
              ys_total = yearly_total\<rparr>)"

text \<open>
  What a completed \<open>calculate\<close> displays and stores: the loan amount, the total
  monthly payment, the total interest over the loan term, the payoff time, the time
  saved, the interest saved, and the yearly totals passed to the chart.
\<close>

record calc_values =
  cv_loan_amount :: real
  cv_monthly_payment :: real
  cv_total_interest :: real
  cv_years_to_payoff :: int
  cv_months_to_payoff :: int
  cv_years_saved :: int
  cv_months_saved :: int
  cv_interest_saved :: real
  cv_yearly :: yearly_series

text \<open>
  The ways \<open>calculate\<close> ends: \<open>validate_inputs\<close> fails (it returns nothing); the
  second down payment check fails; an exception inside the \<open>try\<close> block is caught by
  \<open>except Exception\<close>, shown as "An error occurred during calculation" and \<open>False\<close>
  is returned; or the calculation completes.
\<close>

datatype calc_outcome =
    ValidationFailed
  | DownPaymentTooLarge
  | CalculationError py_error
  | Calculated calc_values

text \<open>
  The payoff times of \<open>calculate\<close> (the \<open>if extra_payment > 0\<close> statement): the
  tuple \<open>(years_to_payoff, months_to_payoff, years_saved, months_saved,
  interest_saved)\<close>.
\<close>

definition payoff_times ::
  "real \<Rightarrow> real \<Rightarrow> real \<Rightarrow> real \<Rightarrow> real \<Rightarrow> py_error + (int \<times> int \<times> int \<times> int \<times> real)" where
  "payoff_times loan_amount' monthly_rate total_interest' principal_payment extra_payment' =
     (if extra_payment' > 0 then
        let total_monthly_payment = principal_payment + extra_payment'
        in err_bind (py_div loan_amount' total_monthly_payment) (\<lambda>q.
             let months_with_extra = py_int q;
                 total_interest_with_extra =
                   fst (interest_with_extra_loop monthly_rate total_monthly_payment
                          [0..months_with_extra - 1] (0, loan_amount'));
                 interest_saved = total_interest' - total_interest_with_extra;
                 years_to_payoff = months_with_extra div 12;
                 months_to_payoff = months_with_extra mod 12
             in err_bind (py_div loan_amount' principal_payment) (\<lambda>q'.
                  let base_months = py_int q';
                      time_saved = base_months - months_with_extra;
                      years_saved = time_saved div 12;
                      months_saved = time_saved mod 12
                  in Inr (years_to_payoff, months_to_payoff, years_saved, months_saved,
                          interest_saved)))
      else
        err_bind (py_div loan_amount' (principal_payment * 12)) (\<lambda>q.
          Inr (py_int q, 0, 0, 0, 0)))"

text \<open>\<open>calculate(self)\<close>.\<close>

definition calculate :: "inputs \<Rightarrow> calc_outcome" where
  "calculate i =
     (if \<not> validate_inputs i then ValidationFailed
      else
        let loan_seeking = loan_seeking_var i;
            down_payment = (case down_payment_mode i of
                              Auto \<Rightarrow> loan_seeking * 0.15
                            | Manual \<Rightarrow> down_payment_var i)
        in if down_payment \<ge> loan_seeking then DownPaymentTooLarge
           else
             let loan_amount' = loan_seeking - down_payment;
                 interest_rate' = interest_rate_var i;
                 principal_payment = principal_payment_var i;
                 extra_payment' = extra_payment_var i;
                 monthly_fee' = monthly_fee_var i;
                 monthly_rate = interest_rate' / 100 / 12
             in case
                  err_bind (py_pow (1 + monthly_rate) (- 360)) (\<lambda>pw.
                  err_bind (py_div (loan_amount' * monthly_rate) (1 - pw)) (\<lambda>base_monthly.
                    let monthly_interest = loan_amount' * monthly_rate;
                        total_monthly =
                          principal_payment + extra_payment' + monthly_interest + monthly_fee';
                        total_interest' = (base_monthly * 360) - loan_amount'
                    in err_bind (payoff_times loan_amount' monthly_rate total_interest'
                                   principal_payment extra_payment')
                         (\<lambda>(years_to_payoff, months_to_payoff, years_saved, months_saved,
                            interest_saved).
                            Inr \<lparr>cv_loan_amount = loan_amount',
                                 cv_monthly_payment = total_monthly,
                                 cv_total_interest = total_interest',
                                 cv_years_to_payoff = years_to_payoff,
                                 cv_months_to_payoff = months_to_payoff,
                                 cv_years_saved = years_saved,
                                 cv_months_saved = months_saved,
                                 cv_interest_saved = interest_saved,
                                 cv_yearly =
                                   update_yearly_visualization loan_amount' monthly_rate
                                     years_to_payoff principal_payment extra_payment'
                                     monthly_fee'\<rparr>)))
                of Inl err \<Rightarrow> CalculationError err
                 | Inr values \<Rightarrow> Calculated values)"


section \<open>Notions used in the statements\<close>

text \<open>
  The entries a run of the loop appends, described one entry at a time: started with
  the balance \<open>b\<close> and \<open>self.extra_payment = x\<close>, the loop appends \<open>e\<close> only while the
  balance is positive, \<open>e\<close> holds the interest and principal of that balance, the
  balance and extra payment after the clamp test, and the rest of the entries continue
  from the balance and extra payment that \<open>e\<close> records.
\<close>

fun run_from :: "real \<Rightarrow> real \<Rightarrow> real \<Rightarrow> real \<Rightarrow> schedule_entry list \<Rightarrow> bool" where
  "run_from r pay b x [] = True"
| "run_from r pay b x (e # es) =
     (0 < b \<and> e_interest e = b * r \<and> e_principal e = pay - b * r
      \<and> e_balance e = (if pay - b * r + x > b then 0 else b - (pay - b * r + x))
      \<and> e_extra_payment e = (if pay - b * r + x > b then 0 else x)
      \<and> run_from r pay (e_balance e) (e_extra_payment e) es)"

declare run_from.simps(2) [simp del]

text \<open>The balance and the extra payment after the entries \<open>es\<close>.\<close>

definition final_balance :: "real \<Rightarrow> schedule_entry list \<Rightarrow> real" where
  "final_balance b es = (if es = [] then b else e_balance (last es))"

definition final_extra :: "real \<Rightarrow> schedule_entry list \<Rightarrow> real" where
  "final_extra x es = (if es = [] then x else e_extra_payment (last es))"

text \<open>
  Valid loan parameters: a positive principal, an annual rate in percent with
  \<open>0 < rate \<le> 30\<close>, a term of at least one year, and a non-negative extra payment and
  monthly fee.
\<close>

definition valid_engine :: "engine \<Rightarrow> bool" where
  "valid_engine self \<longleftrightarrow>
     0 < loan_amount self \<and> 0 < interest_rate self \<and> interest_rate self \<le> 30
     \<and> 1 \<le> term_years self \<and> 0 \<le> extra_payment self \<and> 0 \<le> monthly_fee self"

text \<open>The annuity payment of a loan \<open>L\<close> at the monthly rate \<open>r\<close> over \<open>n\<close> months.\<close>

definition annuity_payment :: "real \<Rightarrow> real \<Rightarrow> nat \<Rightarrow> real" where
  "annuity_payment L r n = L * r * (1 + r) ^ n / ((1 + r) ^ n - 1)"

text \<open>
  Two successive invocations on the same engine object: the result of the first call,
  the engine as the first call leaves it, and the result of a second call on that engine
  (\<open>None\<close> when a call raises).
\<close>

definition first_call_result :: "engine \<Rightarrow> amortization_result option" where
  "first_call_result self =
     (case calculate_amortization self of Inl err \<Rightarrow> None | Inr (res, self') \<Rightarrow> Some res)"

definition engine_after_call :: "engine \<Rightarrow> engine option" where
  "engine_after_call self =
     (case calculate_amortization self of Inl err \<Rightarrow> None | Inr (res, self') \<Rightarrow> Some self')"

definition second_call_result :: "engine \<Rightarrow> amortization_result option" where
  "second_call_result self =
     (case engine_after_call self of None \<Rightarrow> None | Some self' \<Rightarrow> first_call_result self')"

text \<open>
  The balance after \<open>k\<close> further iterations in which the clamp does not occur, with
  \<open>c\<close> the payment plus the extra payment: each iteration takes \<open>b\<close> to
  \<open>b (1 + r) - c\<close>.
\<close>

fun bal_after :: "real \<Rightarrow> real \<Rightarrow> real \<Rightarrow> nat \<Rightarrow> real" where
  "bal_after r c b 0 = b"
| "bal_after r c b (Suc k) = bal_after r c (b * (1 + r) - c) k"

text \<open>
  The locals \<open>loan_amount\<close> and \<open>monthly_rate\<close> of \<open>calculate\<close> as functions of the
  entry fields.
\<close>

definition input_loan_amount :: "inputs \<Rightarrow> real" where
  "input_loan_amount i =
     loan_seeking_var i -
       (case down_payment_mode i of Auto \<Rightarrow> loan_seeking_var i * 0.15
                                  | Manual \<Rightarrow> down_payment_var i)"

definition input_monthly_rate :: "inputs \<Rightarrow> real" where
  "input_monthly_rate i = interest_rate_var i / 100 / 12"

text \<open>
  The local \<open>total_interest\<close> of \<open>calculate\<close>: \<open>base_monthly * 360 - loan_amount\<close>, the
  interest of the annuity over a fixed 360 months.
\<close>

definition annuity_total_interest :: "real \<Rightarrow> real \<Rightarrow> real" where
  "annuity_total_interest L r = L * r / (1 - (1 + r) powi (- 360)) * 360 - L"

text \<open>
  The local \<open>total_interest_with_extra\<close> of \<open>calculate\<close> for a flat monthly reduction
  \<open>p\<close>: the interest accrued over \<open>int(L / p)\<close> months while the balance falls by \<open>p\<close>
  each month.  It is used for \<open>p \<noteq> 0\<close> only; \<open>payoff_times\<close> guards the division.
\<close>

definition flat_model_interest :: "real \<Rightarrow> real \<Rightarrow> real \<Rightarrow> real" where
  "flat_model_interest L r p =
     fst (interest_with_extra_loop r p [0..py_int (L / p) - 1] (0, L))"

text \<open>
  A value read off a completed \<open>calculate\<close> (\<open>None\<close> when it does not complete): the
  payoff time and the time saved in months, as displayed in years and months, and the
  number of rows of the yearly chart.
\<close>

definition calc_value :: "(calc_values \<Rightarrow> 'a) \<Rightarrow> inputs \<Rightarrow> 'a option" where
  "calc_value f i = (case calculate i of Calculated v \<Rightarrow> Some (f v) | _ \<Rightarrow> None)"

definition payoff_months :: "calc_values \<Rightarrow> int" where
  "payoff_months v = cv_years_to_payoff v * 12 + cv_months_to_payoff v"

definition time_saved_months :: "calc_values \<Rightarrow> int" where
  "time_saved_months v = cv_years_saved v * 12 + cv_months_saved v"

definition yearly_rows :: "calc_values \<Rightarrow> nat" where
  "yearly_rows v = length (ys_total (cv_yearly v))"

text \<open>
  The interest saved as the specification words it (section 4.3), for comparison with
  the code: the baseline is the interest of the same flat model with the scheduled
  principal payment alone.
\<close>

definition spec_interest_saved :: "real \<Rightarrow> real \<Rightarrow> real \<Rightarrow> real \<Rightarrow> real" where
  "spec_interest_saved L r pp x = flat_model_interest L r pp - flat_model_interest L r (pp + x)"


section \<open>The payment formula\<close>





section \<open>The schedule generator\<close>

lemma step_entry:
  "\<exists>e. ls_schedule (amortization_step r pay m s) = ls_schedule s @ [e]
     \<and> e_interest e = ls_balance s * r
     \<and> e_principal e = pay - ls_balance s * r
     \<and> e_balance e = (if pay - ls_balance s * r + extra_payment (ls_self s) > ls_balance s then 0
                       else ls_balance s - (pay - ls_balance s * r + extra_payment (ls_self s)))
     \<and> e_extra_payment e = (if pay - ls_balance s * r + extra_payment (ls_self s) > ls_balance s then 0
                       else extra_payment (ls_self s))
     \<and> ls_balance (amortization_step r pay m s) = e_balance e
     \<and> extra_payment (ls_self (amortization_step r pay m s)) = e_extra_payment e
     \<and> ls_total_interest (amortization_step r pay m s) = ls_total_interest s + e_interest e"
  by (simp add: amortization_step_def Let_def)

lemma step_self:
  "ls_self (amortization_step r pay m s) = ls_self s
   \<or> ls_self (amortization_step r pay m s) = (ls_self s)\<lparr>extra_payment := 0\<rparr>"
  by (simp add: amortization_step_def Let_def)

lemma loop_self:
  "ls_self (amortization_loop r pay ms s) = ls_self s
   \<or> ls_self (amortization_loop r pay ms s) = (ls_self s)\<lparr>extra_payment := 0\<rparr>"
proof (induction ms arbitrary: s)
  case Nil
  show ?case by simp
next
  case (Cons m ms)
  show ?case
  proof (cases "ls_balance s \<le> 0")
    case True
    then show ?thesis by simp
  next
    case False
    let ?s' = "amortization_step r pay m s"
    from Cons.IH [of ?s'] step_self [of r pay m s] False
    show ?thesis by auto
  qed
qed

lemma loop_run:
  "\<exists>es. ls_schedule (amortization_loop r pay ms s) = ls_schedule s @ es
     \<and> run_from r pay (ls_balance s) (extra_payment (ls_self s)) es
     \<and> length es \<le> length ms
     \<and> ls_balance (amortization_loop r pay ms s) = final_balance (ls_balance s) es
     \<and> extra_payment (ls_self (amortization_loop r pay ms s))
         = final_extra (extra_payment (ls_self s)) es
     \<and> (length es < length ms \<longrightarrow> final_balance (ls_balance s) es \<le> 0)
     \<and> ls_total_interest (amortization_loop r pay ms s)
         = ls_total_interest s + sum_list (map e_interest es)"
proof (induction ms arbitrary: s)
  case Nil
  show ?case by (simp add: final_balance_def final_extra_def)
next
  case (Cons m ms)
  show ?case
  proof (cases "ls_balance s \<le> 0")
    case True
    then show ?thesis by (simp add: final_balance_def final_extra_def)
  next
    case False
    let ?s' = "amortization_step r pay m s"
    from step_entry [of r pay m s] obtain e where e:
      "ls_schedule ?s' = ls_schedule s @ [e]"
      "e_interest e = ls_balance s * r"
      "e_principal e = pay - ls_balance s * r"
      "e_balance e = (if pay - ls_balance s * r + extra_payment (ls_self s) > ls_balance s then 0
                       else ls_balance s - (pay - ls_balance s * r + extra_payment (ls_self s)))"
      "e_extra_payment e = (if pay - ls_balance s * r + extra_payment (ls_self s) > ls_balance s then 0
                       else extra_payment (ls_self s))"
      "ls_balance ?s' = e_balance e"
      "extra_payment (ls_self ?s') = e_extra_payment e"
      "ls_total_interest ?s' = ls_total_interest s + e_interest e"
      by blast
    from Cons.IH [of ?s'] obtain es where es:
      "ls_schedule (amortization_loop r pay ms ?s') = ls_schedule ?s' @ es"
      "run_from r pay (ls_balance ?s') (extra_payment (ls_self ?s')) es"
      "length es \<le> length ms"
      "ls_balance (amortization_loop r pay ms ?s') = final_balance (ls_balance ?s') es"
      "extra_payment (ls_self (amortization_loop r pay ms ?s'))
         = final_extra (extra_payment (ls_self ?s')) es"
      "length es < length ms \<longrightarrow> final_balance (ls_balance ?s') es \<le> 0"
      "ls_total_interest (amortization_loop r pay ms ?s')
         = ls_total_interest ?s' + sum_list (map e_interest es)"
      by blast
    have loop: "amortization_loop r pay (m # ms) s = amortization_loop r pay ms ?s'"
      using False by simp
    have fb: "final_balance (ls_balance s) (e # es) = final_balance (e_balance e) es"
      and fx: "final_extra (extra_payment (ls_self s)) (e # es) = final_extra (e_extra_payment e) es"
      by (simp_all add: final_balance_def final_extra_def)
    have 1: "ls_schedule (amortization_loop r pay (m # ms) s) = ls_schedule s @ (e # es)"
      unfolding loop es(1) e(1) by simp
    have 2: "run_from r pay (ls_balance s) (extra_payment (ls_self s)) (e # es)"
      using False e(2-5) es(2) unfolding e(6,7) by (simp add: run_from.simps(2))
    have 3: "length (e # es) \<le> length (m # ms)"
      using es(3) by simp
    have 4: "ls_balance (amortization_loop r pay (m # ms) s) = final_balance (ls_balance s) (e # es)"
      unfolding loop es(4) fb e(6) ..
    have 5: "extra_payment (ls_self (amortization_loop r pay (m # ms) s))
         = final_extra (extra_payment (ls_self s)) (e # es)"
      unfolding loop es(5) fx e(7) ..
    have 6: "length (e # es) < length (m # ms) \<longrightarrow> final_balance (ls_balance s) (e # es) \<le> 0"
      using es(6) unfolding fb e(6) by simp
    have 7: "ls_total_interest (amortization_loop r pay (m # ms) s)
         = ls_total_interest s + sum_list (map e_interest (e # es))"
      unfolding loop es(7) e(8) by simp
    from 1 2 3 4 5 6 7 show ?thesis by blast
  qed
qed

lemma run_from_ConsD:
  assumes "run_from r pay b x (e # es)"
  shows "0 < b" and "e_interest e = b * r" and "e_principal e = pay - b * r"
    and "e_balance e = (if pay - b * r + x > b then 0 else b - (pay - b * r + x))"
    and "e_extra_payment e = (if pay - b * r + x > b then 0 else x)"
    and "run_from r pay (e_balance e) (e_extra_payment e) es"
  using assms unfolding run_from.simps by blast+

lemma run_bounds:
  assumes "run_from r pay b x es" and "0 \<le> r" and "b * r < pay" and "0 \<le> x"
  shows "(\<forall>e\<in>set es. 0 \<le> e_balance e \<and> e_balance e \<le> b)
       \<and> sorted_wrt (\<lambda>a c. e_balance c \<le> e_balance a) es"
  using assms
proof (induction es arbitrary: b x)
  case Nil
  show ?case by simp
next
  case (Cons e es)
  note d = run_from_ConsD [OF Cons.prems(1)]
  note b = d(1) and eb = d(4) and ex = d(5) and run = d(6)
  have lo: "0 \<le> e_balance e" and hi: "e_balance e \<le> b"
    using eb b Cons.prems(3,4) by (simp_all split: if_splits)
  have x': "0 \<le> e_extra_payment e"
    using ex Cons.prems(4) by simp
  have "e_balance e * r \<le> b * r"
    using hi Cons.prems(2) by (rule mult_right_mono)
  then have pay': "e_balance e * r < pay"
    using Cons.prems(3) by simp
  from Cons.IH [OF run Cons.prems(2) pay' x']
  have IH: "\<forall>e'\<in>set es. 0 \<le> e_balance e' \<and> e_balance e' \<le> e_balance e"
    and srt: "sorted_wrt (\<lambda>a c. e_balance c \<le> e_balance a) es"
    by simp_all
  show ?case
    using lo hi IH srt by auto
qed

lemma run_clamp_last:
  assumes "run_from r pay b x (pre @ e # post)"
    and "e_principal e + (if pre = [] then x else e_extra_payment (last pre))
           > (if pre = [] then b else e_balance (last pre))"
  shows "e_extra_payment e = 0 \<and> e_balance e = 0 \<and> post = []"
  using assms
proof (induction pre arbitrary: b x)
  case Nil
  from Nil.prems(1) have run0: "run_from r pay b x (e # post)"
    by (simp only: append_Nil)
  from Nil.prems(2) have clamp: "e_principal e + x > b"
    by simp
  note d = run_from_ConsD [OF run0]
  note e = d(3,4,5) and run = d(6)
  from clamp e have z: "e_balance e = 0" "e_extra_payment e = 0" by simp_all
  have "post = []"
  proof (cases post)
    case Nil
    then show ?thesis .
  next
    case (Cons p ps)
    from run_from_ConsD(1) [OF run [unfolded Cons]] z show ?thesis by simp
  qed
  with z show ?case by simp
next
  case (Cons p pre)
  from Cons.prems(1) have "run_from r pay b x (p # (pre @ e # post))"
    by (simp only: append_Cons)
  note run = run_from_ConsD(6) [OF this]
  from Cons.prems(2) have
    "e_principal e + (if pre = [] then e_extra_payment p else e_extra_payment (last pre))
           > (if pre = [] then e_balance p else e_balance (last pre))"
    by (simp split: if_splits)
  from Cons.IH [OF run this] show ?case .
qed

lemma run_principal:
  "run_from r pay b x es \<Longrightarrow> \<forall>e\<in>set es. e_principal e = pay - e_interest e"
proof (induction es arbitrary: b x)
  case Nil
  show ?case by simp
next
  case (Cons e es)
  note d = run_from_ConsD [OF Cons.prems]
  from Cons.IH [OF d(6)] d(2,3) show ?case by simp
qed

lemma annuity_step:
  fixes b r pay Q :: real
  assumes r: "0 < r" and Q: "1 \<le> Q" and pay: "0 \<le> pay"
    and eq: "b * r * ((1 + r) * Q) = pay * ((1 + r) * Q - 1)"
  shows "pay - b * r \<le> b" and "(b - (pay - b * r)) * r * Q = pay * (Q - 1)"
proof -
  have "pay * (r * Q) + pay * (Q - 1) = pay * ((1 + r) * Q - 1)"
    by (simp add: algebra_simps)
  also have "\<dots> = b * (1 + r) * (r * Q)"
    using eq by (simp add: algebra_simps)
  finally have key: "pay * (r * Q) + pay * (Q - 1) = b * (1 + r) * (r * Q)" .
  show "(b - (pay - b * r)) * r * Q = pay * (Q - 1)"
    using key by (simp add: algebra_simps)
  have rQ: "0 < r * Q" using r Q by simp
  have "0 \<le> pay * (Q - 1)"
    using pay Q by simp
  with key have "pay * (r * Q) \<le> b * (1 + r) * (r * Q)" by simp
  then have "pay \<le> b * (1 + r)"
    using rQ by (simp only: mult_le_cancel_right_pos)
  then show "pay - b * r \<le> b" by (simp add: algebra_simps)
qed

lemma annuity_balance_pos:
  fixes b r pay Q :: real
  assumes r: "0 < r" and Q: "1 \<le> Q" and pay: "0 < pay"
    and eq: "b * r * ((1 + r) * Q) = pay * ((1 + r) * Q - 1)"
  shows "0 < b"
proof -
  have "1 * 1 < (1 + r) * Q"
    using r Q by (intro mult_less_le_imp_less) simp_all
  then have "0 < pay * ((1 + r) * Q - 1)"
    using pay by simp
  with eq have "0 < b * (r * ((1 + r) * Q))" by (simp add: mult.assoc)
  moreover have "0 < r * ((1 + r) * Q)" using r Q by simp
  ultimately show ?thesis by (simp add: zero_less_mult_iff)
qed

text \<open>
  Without extra payment the balance stays on the annuity curve: with \<open>j\<close> months left,
  \<open>b r (1 + r)^j = pay ((1 + r)^j - 1)\<close>.
\<close>

lemma annuity_run:
  fixes r pay :: real
  assumes "run_from r pay b 0 es" and "0 < r" and "0 < pay"
    and "b * r * (1 + r) ^ j = pay * ((1 + r) ^ j - 1)"
    and "length es \<le> j"
  shows "final_balance b es * r * (1 + r) ^ (j - length es) = pay * ((1 + r) ^ (j - length es) - 1)
       \<and> sum_list (map e_principal es) = b - final_balance b es"
  using assms
proof (induction es arbitrary: b j)
  case Nil
  then show ?case by (simp add: final_balance_def)
next
  case (Cons e es)
  from Cons.prems(5) obtain k where j: "j = Suc k" and k: "length es \<le> k"
    by (cases j) simp_all
  have Q: "1 \<le> (1 + r) ^ k"
    using Cons.prems(2) by (intro one_le_power) simp
  have eq: "b * r * ((1 + r) * (1 + r) ^ k) = pay * ((1 + r) * (1 + r) ^ k - 1)"
    using Cons.prems(4) unfolding j by simp
  have pay0: "0 \<le> pay" using Cons.prems(3) by simp
  note st = annuity_step [OF Cons.prems(2) Q pay0 eq]
  note d = run_from_ConsD [OF Cons.prems(1)]
  note ep = d(3) and eb = d(4) and ex = d(5) and run = d(6)
  from eb st(1) have eb': "e_balance e = b - (pay - b * r)" by simp
  from ex have ex': "e_extra_payment e = 0" by simp
  have eq': "e_balance e * r * (1 + r) ^ k = pay * ((1 + r) ^ k - 1)"
    unfolding eb' by (rule st(2))
  from Cons.IH [OF run [unfolded ex'] Cons.prems(2,3) eq' k]
  have IH1: "final_balance (e_balance e) es * r * (1 + r) ^ (k - length es)
              = pay * ((1 + r) ^ (k - length es) - 1)"
    and IH2: "sum_list (map e_principal es) = e_balance e - final_balance (e_balance e) es"
    by simp_all
  have fb: "final_balance b (e # es) = final_balance (e_balance e) es"
    by (simp add: final_balance_def)
  show ?case
    unfolding fb using IH1 IH2 ep eb' by (simp add: j)
qed

lemma amortization_run:
  assumes "calculate_monthly_payment self (interest_rate self / 100 / 12) (term_years self * 12)
             = Inr pay"
  shows "\<exists>es self'.
      calculate_amortization self =
        Inr (\<lparr>schedule = es, total_interest = sum_list (map e_interest es),
              final_payment_month = length es\<rparr>, self')
    \<and> run_from (interest_rate self / 100 / 12) pay (loan_amount self) (extra_payment self) es
    \<and> length es \<le> nat (term_years self * 12)
    \<and> (length es < nat (term_years self * 12) \<longrightarrow> final_balance (loan_amount self) es \<le> 0)
    \<and> (self' = self \<or> self' = self\<lparr>extra_payment := 0\<rparr>)
    \<and> extra_payment self' = final_extra (extra_payment self) es"
proof -
  let ?r = "interest_rate self / 100 / 12"
  let ?s0 = "\<lparr>ls_self = self, ls_balance = loan_amount self,
              ls_total_interest = 0, ls_schedule = []\<rparr>"
  let ?S = "amortization_loop ?r pay [1..term_years self * 12] ?s0"
  have calc: "calculate_amortization self =
      Inr (\<lparr>schedule = ls_schedule ?S, total_interest = ls_total_interest ?S,
            final_payment_month = length (ls_schedule ?S)\<rparr>, ls_self ?S)"
    using assms by (simp add: calculate_amortization_def Let_def err_bind_def)
  from loop_run [of ?r pay "[1..term_years self * 12]" ?s0] obtain es where es:
    "ls_schedule ?S = es"
    "run_from ?r pay (loan_amount self) (extra_payment self) es"
    "length es \<le> nat (term_years self * 12)"
    "extra_payment (ls_self ?S) = final_extra (extra_payment self) es"
    "length es < nat (term_years self * 12) \<longrightarrow> final_balance (loan_amount self) es \<le> 0"
    "ls_total_interest ?S = sum_list (map e_interest es)"
    by auto
  from loop_self [of ?r pay "[1..term_years self * 12]" ?s0]
  have self: "ls_self ?S = self \<or> ls_self ?S = self\<lparr>extra_payment := 0\<rparr>"
    by simp
  show ?thesis
    unfolding calc es(1) es(6) using es(2,3,4,5) self by blast
qed

lemma amortization_Inr_payment:
  assumes "calculate_amortization self = Inr (res, self')"
  shows "\<exists>pay. calculate_monthly_payment self (interest_rate self / 100 / 12)
                  (term_years self * 12) = Inr pay"
proof (cases "calculate_monthly_payment self (interest_rate self / 100 / 12)
                  (term_years self * 12)")
  case (Inl err)
  with assms show ?thesis
    by (simp add: calculate_amortization_def Let_def err_bind_def)
next
  case (Inr pay)
  then show ?thesis by blast
qed

lemma annuity_payment_gt:
  fixes L r :: real
  assumes L: "0 < L" and r: "0 < r" and n: "0 < n"
  shows "L * r < annuity_payment L r n"
proof -
  define Q where "Q = (1 + r) ^ n"
  have Q: "1 < Q"
    unfolding Q_def using r n by (intro one_less_power) simp_all
  have Lr: "0 < L * r" using L r by simp
  have "L * r * (Q - 1) < L * r * Q"
    using Lr by (simp only: mult_less_cancel_left_pos)
  then have "L * r < L * r * Q / (Q - 1)"
    using Q by (simp add: pos_less_divide_eq)
  then show ?thesis
    unfolding annuity_payment_def Q_def .
qed

lemma valid_payment:
  assumes "valid_engine self"
  shows "calculate_monthly_payment self (interest_rate self / 100 / 12) (term_years self * 12)
          = Inr (annuity_payment (loan_amount self) (interest_rate self / 100 / 12)
                   (nat (term_years self * 12)))"
    and "loan_amount self * (interest_rate self / 100 / 12)
          < annuity_payment (loan_amount self) (interest_rate self / 100 / 12)
              (nat (term_years self * 12))"
    and "0 < annuity_payment (loan_amount self) (interest_rate self / 100 / 12)
              (nat (term_years self * 12))"
proof -
  let ?r = "interest_rate self / 100 / 12"
  let ?n = "nat (term_years self * 12)"
  let ?L = "loan_amount self"
  from assms have r: "0 < ?r" and L: "0 < ?L" and t: "1 \<le> term_years self"
    by (simp_all add: valid_engine_def)
  from t have n: "0 < ?n" by simp
  have powi: "(1 + ?r) powi (term_years self * 12) = (1 + ?r) ^ ?n"
    using t by (simp add: power_int_def)
  have Q: "1 < (1 + ?r) ^ ?n"
    using r n by (intro one_less_power) simp_all
  show "calculate_monthly_payment self ?r (term_years self * 12)
          = Inr (annuity_payment ?L ?r ?n)"
    using r Q unfolding calculate_monthly_payment_def py_pow_def py_div_def err_bind_def powi
      annuity_payment_def by simp
  show "?L * ?r < annuity_payment ?L ?r ?n"
    using L r n by (rule annuity_payment_gt)
  with L r show "0 < annuity_payment ?L ?r ?n"
    by (meson mult_pos_pos order_less_trans)
qed

lemma annuity_payment_eq:
  assumes "0 < r" and "0 < n"
  shows "L * r * (1 + r) ^ n = annuity_payment L r n * ((1 + r) ^ n - 1)"
proof -
  have "1 < (1 + r) ^ n"
    using assms by (intro one_less_power) simp_all
  then show ?thesis
    unfolding annuity_payment_def by simp
qed

lemma valid_run:
  assumes v: "valid_engine self"
  defines "r \<equiv> interest_rate self / 100 / 12"
  defines "n \<equiv> nat (term_years self * 12)"
  defines "pay \<equiv> annuity_payment (loan_amount self) r n"
  shows "\<exists>es self'.
      calculate_amortization self =
        Inr (\<lparr>schedule = es, total_interest = sum_list (map e_interest es),
              final_payment_month = length es\<rparr>, self')
    \<and> run_from r pay (loan_amount self) (extra_payment self) es
    \<and> length es \<le> n
    \<and> (length es < n \<longrightarrow> final_balance (loan_amount self) es \<le> 0)
    \<and> (self' = self \<or> self' = self\<lparr>extra_payment := 0\<rparr>)
    \<and> extra_payment self' = final_extra (extra_payment self) es"
  unfolding r_def n_def pay_def
  by (rule amortization_run [OF valid_payment(1) [OF v]])

lemma valid_facts:
  assumes v: "valid_engine self"
  shows "0 < interest_rate self / 100 / 12" and "0 < nat (term_years self * 12)"
    and "0 < loan_amount self" and "0 \<le> extra_payment self"
  using v by (simp_all add: valid_engine_def)

lemma early_payoff_example:
  defines "self \<equiv> \<lparr>loan_amount = 1000, interest_rate = 30, term_years = 1,
                     extra_payment = 2000, monthly_fee = 0\<rparr>"
  shows "\<exists>e res self'.
      calculate_amortization self = Inr (res, self')
    \<and> schedule res = [e] \<and> final_payment_month res = 1
    \<and> e_principal e + extra_payment self > loan_amount self
    \<and> e_balance e = 0 \<and> e_extra_payment e = 0
    \<and> self' = self\<lparr>extra_payment := 0\<rparr>"
proof -
  have v: "valid_engine self"
    by (simp add: valid_engine_def self_def)
  let ?r = "interest_rate self / 100 / 12"
  let ?pay = "annuity_payment (loan_amount self) ?r (nat (term_years self * 12))"
  from valid_run [OF v] obtain es self' where
    calc: "calculate_amortization self =
        Inr (\<lparr>schedule = es, total_interest = sum_list (map e_interest es),
              final_payment_month = length es\<rparr>, self')"
    and run: "run_from ?r ?pay (loan_amount self) (extra_payment self) es"
    and fin: "length es < nat (term_years self * 12) \<longrightarrow> final_balance (loan_amount self) es \<le> 0"
    and self': "self' = self \<or> self' = self\<lparr>extra_payment := 0\<rparr>"
    and ex': "extra_payment self' = final_extra (extra_payment self) es"
    by blast
  have pay: "loan_amount self * ?r < ?pay"
    by (rule valid_payment(2) [OF v])
  have "es \<noteq> []"
  proof
    assume "es = []"
    with fin show False by (simp add: final_balance_def self_def)
  qed
  then obtain e post where es: "es = e # post" by (cases es) auto
  note d = run_from_ConsD [OF run [unfolded es]]
  have clamp: "e_principal e + extra_payment self > loan_amount self"
    using pay unfolding d(3) by (simp add: self_def)
  have run': "run_from ?r ?pay (loan_amount self) (extra_payment self) ([] @ e # post)"
    using run es by simp
  from run_clamp_last [OF run'] clamp
  have z: "e_extra_payment e = 0 \<and> e_balance e = 0 \<and> post = []" by simp
  then have es1: "es = [e]" using es by simp
  have "extra_payment self' = 0"
    using ex' z es1 by (simp add: final_extra_def)
  with self' have s: "self' = self\<lparr>extra_payment := 0\<rparr>"
    by (auto simp: self_def)
  show ?thesis
    using calc clamp z s unfolding es1 by auto
qed

lemma annuity_schedule:
  assumes v: "valid_engine self" and x: "extra_payment self = 0"
  shows "\<exists>res. calculate_amortization self = Inr (res, self)
     \<and> length (schedule res) = nat (term_years self * 12)
     \<and> final_payment_month res = nat (term_years self * 12)
     \<and> sum_list (map e_principal (schedule res)) = loan_amount self"
proof -
  let ?r = "interest_rate self / 100 / 12"
  let ?n = "nat (term_years self * 12)"
  let ?L = "loan_amount self"
  let ?pay = "annuity_payment ?L ?r ?n"
  note f = valid_facts [OF v]
  from valid_run [OF v] obtain es self' where
    calc: "calculate_amortization self =
        Inr (\<lparr>schedule = es, total_interest = sum_list (map e_interest es),
              final_payment_month = length es\<rparr>, self')"
    and run: "run_from ?r ?pay ?L (extra_payment self) es"
    and len: "length es \<le> ?n"
    and fin: "length es < ?n \<longrightarrow> final_balance ?L es \<le> 0"
    and self': "self' = self \<or> self' = self\<lparr>extra_payment := 0\<rparr>"
    by blast
  have pay: "0 < ?pay" by (rule valid_payment(3) [OF v])
  have eq: "?L * ?r * (1 + ?r) ^ ?n = ?pay * ((1 + ?r) ^ ?n - 1)"
    using f(1,2) by (rule annuity_payment_eq)
  from annuity_run [OF run [unfolded x] f(1) pay eq len]
  have inv: "final_balance ?L es * ?r * (1 + ?r) ^ (?n - length es)
              = ?pay * ((1 + ?r) ^ (?n - length es) - 1)"
    and sum: "sum_list (map e_principal es) = ?L - final_balance ?L es"
    by simp_all
  have full: "length es = ?n"
  proof (rule ccontr)
    assume "length es \<noteq> ?n"
    with len have lt: "length es < ?n" by simp
    then obtain k where k: "?n - length es = Suc k"
      by (cases "?n - length es") simp_all
    have Q: "1 \<le> (1 + ?r) ^ k"
      using f(1) by (intro one_le_power) simp
    have "final_balance ?L es * ?r * ((1 + ?r) * (1 + ?r) ^ k)
            = ?pay * ((1 + ?r) * (1 + ?r) ^ k - 1)"
      using inv unfolding k by simp
    from annuity_balance_pos [OF f(1) Q pay this] fin lt
    show False by simp
  qed
  have "final_balance ?L es * ?r = 0"
    using inv unfolding full by simp
  then have "final_balance ?L es = 0"
    using f(1) by simp
  with sum have sum': "sum_list (map e_principal es) = ?L" by simp
  from self' x have "self' = self" by auto
  with calc full sum' show ?thesis by simp
qed

text \<open>
  Claim C5.  For valid parameters the schedule generator returns a schedule whose
  balances never increase from one entry to a later one, all lie between \<open>0\<close> and the
  loan amount, and, when the schedule is shorter than the term in months, the last
  entry's balance is exactly \<open>0\<close>.
\<close>

theorem schedule_balance_invariants:
  assumes "valid_engine self"
  shows "\<exists>res self'. calculate_amortization self = Inr (res, self')
     \<and> sorted_wrt (\<lambda>a c. e_balance c \<le> e_balance a) (schedule res)
     \<and> (\<forall>e\<in>set (schedule res). 0 \<le> e_balance e \<and> e_balance e \<le> loan_amount self)
     \<and> (length (schedule res) < nat (term_years self * 12) \<longrightarrow>
          schedule res \<noteq> [] \<and> e_balance (last (schedule res)) = 0)"
proof -
  let ?r = "interest_rate self / 100 / 12"
  let ?n = "nat (term_years self * 12)"
  let ?L = "loan_amount self"
  let ?pay = "annuity_payment ?L ?r ?n"
  note f = valid_facts [OF assms]
  from valid_run [OF assms] obtain es self' where
    calc: "calculate_amortization self =
        Inr (\<lparr>schedule = es, total_interest = sum_list (map e_interest es),
              final_payment_month = length es\<rparr>, self')"
    and run: "run_from ?r ?pay ?L (extra_payment self) es"
    and fin: "length es < ?n \<longrightarrow> final_balance ?L es \<le> 0"
    by blast
  have r0: "0 \<le> ?r" using f(1) by simp
  from run_bounds [OF run r0 valid_payment(2) [OF assms] f(4)]
  have bnd: "\<forall>e\<in>set es. 0 \<le> e_balance e \<and> e_balance e \<le> ?L"
    and srt: "sorted_wrt (\<lambda>a c. e_balance c \<le> e_balance a) es"
    by simp_all
  have early: "es \<noteq> [] \<and> e_balance (last es) = 0" if lt: "length es < ?n"
  proof -
    from fin lt have le: "final_balance ?L es \<le> 0" by simp
    have ne: "es \<noteq> []"
    proof
      assume "es = []"
      with le f(3) show False by (simp add: final_balance_def)
    qed
    then have "last es \<in> set es" by simp
    with bnd have "0 \<le> e_balance (last es)" by blast
    with le ne show ?thesis by (simp add: final_balance_def)
  qed
  from calc bnd srt early show ?thesis by simp
qed

theorem schedule_balance_invariants_witness:
  "valid_engine \<lparr>loan_amount = 1000, interest_rate = 30, term_years = 1,
                  extra_payment = 2000, monthly_fee = 0\<rparr>
   \<and> (\<exists>res self'.
        calculate_amortization \<lparr>loan_amount = 1000, interest_rate = 30, term_years = 1,
                  extra_payment = 2000, monthly_fee = 0\<rparr> = Inr (res, self')
      \<and> length (schedule res) = 1
      \<and> sorted_wrt (\<lambda>a c. e_balance c \<le> e_balance a) (schedule res)
      \<and> (\<forall>e\<in>set (schedule res). 0 \<le> e_balance e \<and> e_balance e \<le> 1000)
      \<and> e_balance (last (schedule res)) = 0)"
proof -
  let ?self = "\<lparr>loan_amount = 1000, interest_rate = 30, term_years = 1,
                  extra_payment = 2000, monthly_fee = 0\<rparr>"
  have v: "valid_engine ?self" by (simp add: valid_engine_def)
  from schedule_balance_invariants [OF v] obtain res self' where
    calc: "calculate_amortization ?self = Inr (res, self')"
    and srt: "sorted_wrt (\<lambda>a c. e_balance c \<le> e_balance a) (schedule res)"
    and bnd: "\<forall>e\<in>set (schedule res). 0 \<le> e_balance e \<and> e_balance e \<le> loan_amount ?self"
    and early: "length (schedule res) < nat (term_years ?self * 12) \<longrightarrow>
          schedule res \<noteq> [] \<and> e_balance (last (schedule res)) = 0"
    by blast
  from early_payoff_example calc have len: "length (schedule res) = 1" by auto
  with early have "e_balance (last (schedule res)) = 0" by simp
  with v calc len srt bnd show ?thesis by auto
qed

text \<open>
  Claim C6.  In a schedule the generator returns, an entry at which the clamp occurs
  (its principal plus the extra payment in force exceeds the balance before it, which
  are those of the engine for the first entry and those recorded by the preceding entry
  otherwise) records a zero extra payment, and so does every later entry.
\<close>

theorem extra_payment_zero_from_clamp:
  assumes "calculate_amortization self = Inr (res, self')"
    and "schedule res = pre @ e # post"
    and "e_principal e + (if pre = [] then extra_payment self else e_extra_payment (last pre))
           > (if pre = [] then loan_amount self else e_balance (last pre))"
  shows "e_extra_payment e = 0 \<and> (\<forall>e'\<in>set post. e_extra_payment e' = 0)"
proof -
  from amortization_Inr_payment [OF assms(1)] obtain pay where
    "calculate_monthly_payment self (interest_rate self / 100 / 12) (term_years self * 12)
       = Inr pay" ..
  from amortization_run [OF this] assms(1) have
    "run_from (interest_rate self / 100 / 12) pay (loan_amount self) (extra_payment self)
       (schedule res)"
    by auto
  from run_clamp_last [OF this [unfolded assms(2)] assms(3)]
  show ?thesis by simp
qed

theorem extra_payment_zero_from_clamp_witness:
  "\<exists>res self' e.
      calculate_amortization \<lparr>loan_amount = 1000, interest_rate = 30, term_years = 1,
                  extra_payment = 2000, monthly_fee = 0\<rparr> = Inr (res, self')
    \<and> schedule res = [] @ e # []
    \<and> e_principal e + 2000 > 1000
    \<and> e_extra_payment e = 0"
proof -
  let ?self = "\<lparr>loan_amount = 1000, interest_rate = 30, term_years = 1,
                  extra_payment = 2000, monthly_fee = 0\<rparr>"
  from early_payoff_example obtain e res self' where
    calc: "calculate_amortization ?self = Inr (res, self')"
    and sch: "schedule res = [] @ e # []"
    and clamp: "e_principal e + extra_payment ?self > loan_amount ?self"
    by auto
  from clamp have
    "e_principal e + (if [] = [] then extra_payment ?self else e_extra_payment (last []))
       > (if [] = [] then loan_amount ?self else e_balance (last []))"
    by simp
  from extra_payment_zero_from_clamp [OF calc sch this] calc sch clamp
  show ?thesis by auto
qed



text \<open>
  Claim C2 fails: the call assigns \<open>self.extra_payment = 0\<close> at the clamp, so a second
  call on the same engine computes a different schedule.  With a loan of 1000 at 30
  percent over one year and an extra payment of 2000, the first call pays the loan off in
  one entry and resets the extra payment, and the second call returns twelve entries.
\<close>

theorem second_call_differs:
  "first_call_result \<lparr>loan_amount = 1000, interest_rate = 30, term_years = 1,
                  extra_payment = 2000, monthly_fee = 0\<rparr> \<noteq> None
   \<and> second_call_result \<lparr>loan_amount = 1000, interest_rate = 30, term_years = 1,
                  extra_payment = 2000, monthly_fee = 0\<rparr> \<noteq> None
   \<and> second_call_result \<lparr>loan_amount = 1000, interest_rate = 30, term_years = 1,
                  extra_payment = 2000, monthly_fee = 0\<rparr>
     \<noteq> first_call_result \<lparr>loan_amount = 1000, interest_rate = 30, term_years = 1,
                  extra_payment = 2000, monthly_fee = 0\<rparr>"
proof -
  let ?self = "\<lparr>loan_amount = 1000, interest_rate = 30, term_years = 1,
                  extra_payment = 2000, monthly_fee = 0\<rparr>"
  let ?self1 = "\<lparr>loan_amount = 1000, interest_rate = 30, term_years = 1,
                  extra_payment = 0, monthly_fee = 0\<rparr>"
  from early_payoff_example obtain res1 self1 where
    calc1: "calculate_amortization ?self = Inr (res1, self1)"
    and len1: "final_payment_month res1 = 1"
    and self1: "self1 = ?self1"
    by auto
  have v: "valid_engine ?self1" by (simp add: valid_engine_def)
  from annuity_schedule [OF v] obtain res2 where
    calc2: "calculate_amortization ?self1 = Inr (res2, ?self1)"
    and len2: "final_payment_month res2 = nat (term_years ?self1 * 12)"
    by auto
  have 1: "first_call_result ?self = Some res1"
    using calc1 by (simp add: first_call_result_def)
  have 2: "second_call_result ?self = Some res2"
    using calc1 calc2 self1
    by (simp add: second_call_result_def engine_after_call_def first_call_result_def)
  have "res1 \<noteq> res2" using len1 len2 by auto
  with 1 2 show ?thesis by simp
qed

text \<open>
  Claim C2, amended.  For valid parameters a call returns a result and changes no field
  of the engine except \<open>extra_payment\<close>, which it either leaves as it is or sets to
  \<open>0\<close>; when the engine is left unchanged, in particular when the extra payment is
  \<open>0\<close>, a second call on the same engine returns the same result.
\<close>

theorem repeat_call_same_result:
  assumes "valid_engine self"
  shows "(\<exists>res. first_call_result self = Some res)
     \<and> (engine_after_call self = Some self
          \<or> engine_after_call self = Some (self\<lparr>extra_payment := 0\<rparr>))
     \<and> (engine_after_call self = Some self \<longrightarrow>
          second_call_result self = first_call_result self)
     \<and> (extra_payment self = 0 \<longrightarrow> engine_after_call self = Some self)"
proof -
  from valid_run [OF assms] obtain res self' where
    calc: "calculate_amortization self = Inr (res, self')"
    and self': "self' = self \<or> self' = self\<lparr>extra_payment := 0\<rparr>"
    by blast
  have 1: "first_call_result self = Some res"
    using calc by (simp add: first_call_result_def)
  have 2: "engine_after_call self = Some self'"
    using calc by (simp add: engine_after_call_def)
  have 3: "second_call_result self = first_call_result self"
    if "engine_after_call self = Some self"
    using that by (simp add: second_call_result_def)
  have 4: "self' = self" if "extra_payment self = 0"
    using self' that by auto
  from 1 2 3 4 self' show ?thesis by auto
qed

theorem repeat_call_same_result_witness:
  "valid_engine \<lparr>loan_amount = 300000, interest_rate = 4.5, term_years = 30,
                  extra_payment = 0, monthly_fee = 50\<rparr>
   \<and> second_call_result \<lparr>loan_amount = 300000, interest_rate = 4.5, term_years = 30,
                  extra_payment = 0, monthly_fee = 50\<rparr>
     = first_call_result \<lparr>loan_amount = 300000, interest_rate = 4.5, term_years = 30,
                  extra_payment = 0, monthly_fee = 50\<rparr>
   \<and> first_call_result \<lparr>loan_amount = 300000, interest_rate = 4.5, term_years = 30,
                  extra_payment = 0, monthly_fee = 50\<rparr> \<noteq> None"
proof -
  let ?self = "\<lparr>loan_amount = 300000, interest_rate = 4.5, term_years = 30,
                  extra_payment = 0, monthly_fee = 50\<rparr>"
  have v: "valid_engine ?self" by (simp add: valid_engine_def)
  from repeat_call_same_result [OF v] v show ?thesis by auto
qed

subsection \<open>Monotonicity in the extra payment\<close>

lemma amortization_loop_result:
  assumes "calculate_monthly_payment self (interest_rate self / 100 / 12) (term_years self * 12)
             = Inr pay"
  shows "calculate_amortization self =
      Inr (\<lparr>schedule = ls_schedule (amortization_loop (interest_rate self / 100 / 12) pay
                [1..term_years self * 12]
                \<lparr>ls_self = self, ls_balance = loan_amount self,
                 ls_total_interest = 0, ls_schedule = []\<rparr>),
            total_interest = ls_total_interest (amortization_loop (interest_rate self / 100 / 12) pay
                [1..term_years self * 12]
                \<lparr>ls_self = self, ls_balance = loan_amount self,
                 ls_total_interest = 0, ls_schedule = []\<rparr>),
            final_payment_month = length (ls_schedule (amortization_loop
                (interest_rate self / 100 / 12) pay [1..term_years self * 12]
                \<lparr>ls_self = self, ls_balance = loan_amount self,
                 ls_total_interest = 0, ls_schedule = []\<rparr>))\<rparr>,
           ls_self (amortization_loop (interest_rate self / 100 / 12) pay
                [1..term_years self * 12]
                \<lparr>ls_self = self, ls_balance = loan_amount self,
                 ls_total_interest = 0, ls_schedule = []\<rparr>))"
  using assms by (simp add: calculate_amortization_def Let_def err_bind_def)

lemma run_interest_nonneg:
  "run_from r pay b x es \<Longrightarrow> 0 \<le> r \<Longrightarrow> 0 \<le> sum_list (map e_interest es)"
proof (induction es arbitrary: b x)
  case Nil
  show ?case by simp
next
  case (Cons e es)
  note d = run_from_ConsD [OF Cons.prems(1)]
  have "0 \<le> b * r" using d(1) Cons.prems(2) by simp
  with Cons.IH [OF d(6) Cons.prems(2)] d(2) show ?case by simp
qed

lemma loop_grows:
  assumes "0 \<le> r"
  shows "length (ls_schedule s) \<le> length (ls_schedule (amortization_loop r pay ms s))"
    and "ls_total_interest s \<le> ls_total_interest (amortization_loop r pay ms s)"
proof -
  from loop_run [of r pay ms s] obtain es where
    es: "ls_schedule (amortization_loop r pay ms s) = ls_schedule s @ es"
    "run_from r pay (ls_balance s) (extra_payment (ls_self s)) es"
    "ls_total_interest (amortization_loop r pay ms s)
         = ls_total_interest s + sum_list (map e_interest es)"
    by blast
  show "length (ls_schedule s) \<le> length (ls_schedule (amortization_loop r pay ms s))"
    unfolding es(1) by simp
  from run_interest_nonneg [OF es(2) assms]
  show "ls_total_interest s \<le> ls_total_interest (amortization_loop r pay ms s)"
    unfolding es(3) by simp
qed

lemma step_mono:
  assumes r: "0 \<le> r"
    and b: "ls_balance s2 \<le> ls_balance s1"
    and pos: "0 < ls_balance s2"
    and x: "extra_payment (ls_self s1) \<le> extra_payment (ls_self s2)"
  shows "ls_balance (amortization_step r pay m s2) \<le> ls_balance (amortization_step r pay m s1)"
    and "0 < ls_balance (amortization_step r pay m s2) \<longrightarrow>
           extra_payment (ls_self (amortization_step r pay m s1))
             \<le> extra_payment (ls_self (amortization_step r pay m s2))"
    and "length (ls_schedule (amortization_step r pay m s2)) = Suc (length (ls_schedule s2))"
    and "length (ls_schedule (amortization_step r pay m s1)) = Suc (length (ls_schedule s1))"
    and "ls_total_interest (amortization_step r pay m s2) - ls_total_interest s2
           \<le> ls_total_interest (amortization_step r pay m s1) - ls_total_interest s1"
proof -
  have br: "ls_balance s2 * r \<le> ls_balance s1 * r"
    using b r by (rule mult_right_mono)
  show "ls_balance (amortization_step r pay m s2) \<le> ls_balance (amortization_step r pay m s1)"
    using br b x by (simp add: amortization_step_def Let_def)
  show "0 < ls_balance (amortization_step r pay m s2) \<longrightarrow>
           extra_payment (ls_self (amortization_step r pay m s1))
             \<le> extra_payment (ls_self (amortization_step r pay m s2))"
    using br b x by (simp add: amortization_step_def Let_def)
  show "length (ls_schedule (amortization_step r pay m s2)) = Suc (length (ls_schedule s2))"
    and "length (ls_schedule (amortization_step r pay m s1)) = Suc (length (ls_schedule s1))"
    by (simp_all add: amortization_step_def Let_def)
  show "ls_total_interest (amortization_step r pay m s2) - ls_total_interest s2
           \<le> ls_total_interest (amortization_step r pay m s1) - ls_total_interest s1"
    using br by (simp add: amortization_step_def Let_def)
qed

lemma loop_mono:
  assumes r: "0 \<le> r"
    and b: "ls_balance s2 \<le> ls_balance s1"
    and x: "0 < ls_balance s2 \<longrightarrow> extra_payment (ls_self s1) \<le> extra_payment (ls_self s2)"
  shows "length (ls_schedule (amortization_loop r pay ms s2)) + length (ls_schedule s1)
           \<le> length (ls_schedule (amortization_loop r pay ms s1)) + length (ls_schedule s2)
       \<and> ls_total_interest (amortization_loop r pay ms s2) - ls_total_interest s2
           \<le> ls_total_interest (amortization_loop r pay ms s1) - ls_total_interest s1"
  using b x
proof (induction ms arbitrary: s1 s2)
  case Nil
  show ?case by simp
next
  case (Cons m ms)
  show ?case
  proof (cases "ls_balance s2 \<le> 0")
    case True
    from loop_grows [OF r, of s1 pay "m # ms"] True show ?thesis by simp
  next
    case False
    then have pos2: "0 < ls_balance s2" by simp
    with Cons.prems have pos1: "0 < ls_balance s1"
      and x12: "extra_payment (ls_self s1) \<le> extra_payment (ls_self s2)"
      by simp_all
    note st = step_mono [OF r Cons.prems(1) pos2 x12, of pay m]
    from Cons.IH [OF st(1) st(2)] st(3,4,5) pos1 pos2
    show ?thesis by simp
  qed
qed

subsection \<open>A schedule whose principal fields sum to more than the loan\<close>

lemma bal_after_closed:
  assumes "r \<noteq> 0"
  shows "bal_after r c b k = c / r - (c / r - b) * (1 + r) ^ k"
proof (induction k arbitrary: b)
  case 0
  show ?case by simp
next
  case (Suc k)
  have "c / r - (b * (1 + r) - c) = (c / r - b) * (1 + r)"
    using assms by (simp add: field_simps)
  then show ?case
    by (simp add: Suc.IH mult.assoc)
qed

lemma bal_after_antimono:
  assumes r: "0 < r" and c: "b * r \<le> c" and ik: "i \<le> k"
  shows "bal_after r c b k \<le> bal_after r c b i"
proof -
  have "b \<le> c / r" using r c by (simp add: pos_le_divide_eq)
  then have d: "0 \<le> c / r - b" by simp
  have "(1 + r) ^ i \<le> (1 + r) ^ k"
    using r ik by (intro power_increasing) simp_all
  then have "(c / r - b) * (1 + r) ^ i \<le> (c / r - b) * (1 + r) ^ k"
    using d by (rule mult_left_mono)
  then show ?thesis
    using r by (simp add: bal_after_closed)
qed

lemma final_balance_Cons:
  "final_balance b (e # es) = final_balance (e_balance e) es"
  by (simp add: final_balance_def)

lemma no_clamp_prefix:
  assumes "run_from r pay b x es" and "k \<le> length es"
    and "\<forall>i<k. 0 \<le> bal_after r (pay + x) b (Suc i)"
  shows "final_balance b (take k es) = bal_after r (pay + x) b k
       \<and> sum_list (map e_principal (take k es)) = b - bal_after r (pay + x) b k - real k * x
       \<and> run_from r pay (bal_after r (pay + x) b k) x (drop k es)"
  using assms
proof (induction k arbitrary: b es)
  case 0
  then show ?case by (simp add: final_balance_def)
next
  case (Suc k)
  from Suc.prems(2) obtain e es' where es: "es = e # es'" and k: "k \<le> length es'"
    by (cases es) simp_all
  note d = run_from_ConsD [OF Suc.prems(1) [unfolded es]]
  let ?b' = "b * (1 + r) - (pay + x)"
  from Suc.prems(3) have "0 \<le> bal_after r (pay + x) b (Suc 0)" by blast
  then have nc: "\<not> pay - b * r + x > b" by (simp add: algebra_simps)
  from d(4) nc have eb: "e_balance e = ?b'" by (simp add: algebra_simps)
  from d(5) nc have ex: "e_extra_payment e = x" by simp
  have run': "run_from r pay ?b' x es'"
    using d(6) unfolding eb ex .
  have pos': "\<forall>i<k. 0 \<le> bal_after r (pay + x) ?b' (Suc i)"
    using Suc.prems(3) by auto
  from Suc.IH [OF run' k pos']
  have IH1: "final_balance ?b' (take k es') = bal_after r (pay + x) ?b' k"
    and IH2: "sum_list (map e_principal (take k es'))
                = ?b' - bal_after r (pay + x) ?b' k - real k * x"
    and IH3: "run_from r pay (bal_after r (pay + x) ?b' k) x (drop k es')"
    by simp_all
  have 1: "final_balance b (take (Suc k) es) = bal_after r (pay + x) b (Suc k)"
    unfolding es using IH1 by (simp add: final_balance_Cons eb)
  have 2: "sum_list (map e_principal (take (Suc k) es))
             = b - bal_after r (pay + x) b (Suc k) - real (Suc k) * x"
    unfolding es using IH2 d(3) by (simp add: algebra_simps)
  have 3: "run_from r pay (bal_after r (pay + x) b (Suc k)) x (drop (Suc k) es)"
    unfolding es using IH3 by simp
  from 1 2 3 show ?case by blast
qed

lemma example_numbers:
  fixes Q pay \<beta> :: real
  defines "Q \<equiv> (41 / 40) ^ 58"
  defines "pay \<equiv> 25 * (Q * (1681 / 1600)) / (Q * (1681 / 1600) - 1)"
  defines "\<beta> \<equiv> (pay + 9 / 20) * 40 - ((pay + 9 / 20) * 40 - 1000) * Q"
  shows "0 < \<beta>" and "\<beta> * (41 / 40) < pay + 9 / 20" and "58 * (9 / 20) < pay - \<beta> * (41 / 40)"
  unfolding \<beta>_def pay_def Q_def by (simp_all add: power_divide)

lemma early_payoff_principal_example:
  defines "self \<equiv> \<lparr>loan_amount = 1000, interest_rate = 30, term_years = 5,
                     extra_payment = 9 / 20, monthly_fee = 0\<rparr>"
  shows "\<exists>res self'.
      calculate_amortization self = Inr (res, self')
    \<and> length (schedule res) = 59
    \<and> e_balance (last (butlast (schedule res))) - e_balance (last (schedule res))
        < e_principal (last (schedule res))
    \<and> loan_amount self < sum_list (map e_principal (schedule res))"
proof -
  have v: "valid_engine self"
    by (simp add: valid_engine_def self_def)
  define r :: real where "r = 1 / 40"
  define Q :: real where "Q = (41 / 40) ^ 58"
  define pay :: real where "pay = 25 * (Q * (1681 / 1600)) / (Q * (1681 / 1600) - 1)"
  define \<beta> :: real where "\<beta> = (pay + 9 / 20) * 40 - ((pay + 9 / 20) * 40 - 1000) * Q"
  have r_eq: "interest_rate self / 100 / 12 = r"
    by (simp add: self_def r_def)
  have n_eq: "nat (term_years self * 12) = 60"
    by (simp add: self_def)
  have L_eq: "loan_amount self = 1000" and x_eq: "extra_payment self = 9 / 20"
    by (simp_all add: self_def)
  have Q60: "(1 + r) ^ 60 = Q * (1681 / 1600)"
  proof -
    have "(1 + r) ^ 60 = (1 + r) ^ 58 * (1 + r) ^ 2"
      by (simp only: power_add [symmetric]) simp
    also have "\<dots> = Q * (1681 / 1600)"
      by (simp add: r_def Q_def power2_eq_square)
    finally show ?thesis .
  qed
  have pay_eq: "annuity_payment 1000 r 60 = pay"
    unfolding annuity_payment_def Q60 pay_def by (simp add: r_def)
  have num: "0 < \<beta>" "\<beta> * (41 / 40) < pay + 9 / 20" "58 * (9 / 20) < pay - \<beta> * (41 / 40)"
    using example_numbers unfolding \<beta>_def pay_def Q_def by blast+
  have r0: "0 < r" by (simp add: r_def)
  have payL: "1000 * r < pay"
    using annuity_payment_gt [of 1000 r 60] r0 unfolding pay_eq by simp
  have beta: "bal_after r (pay + 9 / 20) 1000 58 = \<beta>"
    using r0 by (simp add: bal_after_closed \<beta>_def Q_def r_def)
  have pos: "0 < bal_after r (pay + 9 / 20) 1000 i" if "i \<le> 58" for i
  proof -
    have "1000 * r \<le> pay + 9 / 20" using payL by simp
    from bal_after_antimono [OF r0 this that] beta num(1) show ?thesis by simp
  qed
  from valid_run [OF v] obtain es self' where
    calc: "calculate_amortization self =
        Inr (\<lparr>schedule = es, total_interest = sum_list (map e_interest es),
              final_payment_month = length es\<rparr>, self')"
    and run: "run_from r pay 1000 (9 / 20) es"
    and fin: "length es < 60 \<longrightarrow> final_balance 1000 es \<le> 0"
    unfolding r_eq n_eq L_eq x_eq pay_eq by blast
  have len: "59 \<le> length es"
  proof (rule ccontr)
    assume "\<not> 59 \<le> length es"
    then have l: "length es \<le> 58" by simp
    have "\<forall>i<length es. 0 \<le> bal_after r (pay + 9 / 20) 1000 (Suc i)"
    proof (intro allI impI)
      fix i assume "i < length es"
      with l have "Suc i \<le> 58" by simp
      from pos [OF this] show "0 \<le> bal_after r (pay + 9 / 20) 1000 (Suc i)" by simp
    qed
    from no_clamp_prefix [OF run order_refl this]
    have "final_balance 1000 es = bal_after r (pay + 9 / 20) 1000 (length es)" by simp
    with pos [OF l] fin l show False by simp
  qed
  have "\<forall>i<58. 0 \<le> bal_after r (pay + 9 / 20) 1000 (Suc i)"
  proof (intro allI impI)
    fix i :: nat assume "i < 58"
    then have "Suc i \<le> 58" by simp
    from pos [OF this] show "0 \<le> bal_after r (pay + 9 / 20) 1000 (Suc i)" by simp
  qed
  moreover have "58 \<le> length es" using len by simp
  ultimately have pre:
    "final_balance 1000 (take 58 es) = \<beta>"
    "sum_list (map e_principal (take 58 es)) = 1000 - \<beta> - 58 * (9 / 20)"
    "run_from r pay \<beta> (9 / 20) (drop 58 es)"
    using no_clamp_prefix [OF run, of 58] unfolding beta by simp_all
  from len obtain e post where dr: "drop 58 es = e # post"
    by (cases "drop 58 es") simp_all
  note d = run_from_ConsD [OF pre(3) [unfolded dr]]
  have clamp: "\<beta> < pay - \<beta> * r + 9 / 20"
    using num(2) by (simp add: r_def algebra_simps)
  have run': "run_from r pay \<beta> (9 / 20) ([] @ e # post)"
    using pre(3) unfolding dr by simp
  have "e_principal e + (if [] = ([] :: schedule_entry list) then 9 / 20
                           else e_extra_payment (last []))
          > (if [] = ([] :: schedule_entry list) then \<beta> else e_balance (last []))"
    using clamp unfolding d(3) by simp
  from run_clamp_last [OF run' this] have z: "e_balance e = 0" "post = []" by simp_all
  have es: "es = take 58 es @ [e]"
    using dr z(2) by (metis append_take_drop_id)
  have len59: "length es = 59"
  proof -
    have "length (drop 58 es) = 1" unfolding dr z(2) by simp
    then show ?thesis by simp
  qed
  have t58: "take 58 es \<noteq> []" using len by auto
  have bl: "butlast es = take 58 es"
    by (subst es) (simp only: butlast_snoc)
  have la: "last es = e"
    by (subst es) (simp only: last_snoc)
  have before: "e_balance (last (butlast es)) = \<beta>"
    using pre(1) t58 unfolding bl by (simp add: final_balance_def)
  have 1: "e_balance (last (butlast es)) - e_balance (last es) < e_principal (last es)"
    unfolding before la z(1) d(3) using num(3) by (simp add: r_def algebra_simps)
  have "sum_list (map e_principal es)
          = sum_list (map e_principal (take 58 es)) + e_principal e"
    by (subst es) simp
  also have "\<dots> = 1000 - \<beta> - 58 * (9 / 20) + (pay - \<beta> * r)"
    unfolding pre(2) d(3) ..
  finally have 2: "1000 < sum_list (map e_principal es)"
    using num(3) by (simp add: r_def algebra_simps)
  from calc len59 1 2 show ?thesis
    unfolding L_eq by auto
qed

section \<open>The payoff projection and the yearly totals\<close>

lemma discount_factor:
  fixes q :: real
  assumes "1 < q"
  shows "0 < q powi (- 360)" and "q powi (- 360) < 1"
proof -
  have p: "1 < q ^ 360"
    using assms by (intro one_less_power) simp_all
  have eq: "q powi (- 360) = inverse (q ^ 360)"
    by (simp add: power_int_minus)
  have "0 < q ^ 360" using zero_less_one p by (rule order_less_trans)
  then show "0 < q powi (- 360)" unfolding eq by (simp only: inverse_positive_iff_positive)
  show "q powi (- 360) < 1" unfolding eq using p by (simp only: inverse_less_1_iff) simp
qed

lemma valid_input_facts:
  assumes "validate_inputs i"
  shows "0 < input_loan_amount i" and "0 < input_monthly_rate i"
    and "0 \<le> principal_payment_var i" and "0 \<le> extra_payment_var i"
    and "0 \<le> monthly_fee_var i"
proof -
  from assms have a: "0 < loan_seeking_var i" "0 \<le> down_payment_var i"
    "down_payment_var i < loan_seeking_var i" "0 < interest_rate_var i"
    "0 \<le> principal_payment_var i" "0 \<le> extra_payment_var i" "0 \<le> monthly_fee_var i"
    by (simp_all add: validate_inputs_def split: if_splits)
  show "0 < input_loan_amount i"
    using a(1,3) by (cases "down_payment_mode i") (simp_all add: input_loan_amount_def)
  show "0 < input_monthly_rate i"
    using a(4) by (simp add: input_monthly_rate_def)
  show "0 \<le> principal_payment_var i" "0 \<le> extra_payment_var i" "0 \<le> monthly_fee_var i"
    using a by simp_all
qed

lemma calculate_valid:
  assumes v: "validate_inputs i"
  shows "calculate i =
     (case payoff_times (input_loan_amount i) (input_monthly_rate i)
             (annuity_total_interest (input_loan_amount i) (input_monthly_rate i))
             (principal_payment_var i) (extra_payment_var i) of
        Inl err \<Rightarrow> CalculationError err
      | Inr (years_to_payoff, months_to_payoff, years_saved, months_saved, interest_saved) \<Rightarrow>
          Calculated
            \<lparr>cv_loan_amount = input_loan_amount i,
             cv_monthly_payment = principal_payment_var i + extra_payment_var i
                + input_loan_amount i * input_monthly_rate i + monthly_fee_var i,
             cv_total_interest =
                annuity_total_interest (input_loan_amount i) (input_monthly_rate i),
             cv_years_to_payoff = years_to_payoff,
             cv_months_to_payoff = months_to_payoff,
             cv_years_saved = years_saved,
             cv_months_saved = months_saved,
             cv_interest_saved = interest_saved,
             cv_yearly = update_yearly_visualization (input_loan_amount i)
                (input_monthly_rate i) years_to_payoff (principal_payment_var i)
                (extra_payment_var i) (monthly_fee_var i)\<rparr>)"
proof -
  note f = valid_input_facts [OF v]
  let ?q = "1 + input_monthly_rate i"
  have q: "1 < ?q" using f(2) by simp
  note df = discount_factor [OF q]
  have pw: "py_pow ?q (- 360) = Inr (?q powi (- 360))"
    using q by (simp add: py_pow_def)
  have dv: "py_div (input_loan_amount i * input_monthly_rate i) (1 - ?q powi (- 360))
              = Inr (input_loan_amount i * input_monthly_rate i / (1 - ?q powi (- 360)))"
    using df(2) by (simp add: py_div_def)
  have dp: "\<not> (case down_payment_mode i of Auto \<Rightarrow> loan_seeking_var i * 0.15
                | Manual \<Rightarrow> down_payment_var i) \<ge> loan_seeking_var i"
    using f(1) by (simp add: input_loan_amount_def)
  have la: "loan_seeking_var i - (case down_payment_mode i of Auto \<Rightarrow> loan_seeking_var i * 0.15
                | Manual \<Rightarrow> down_payment_var i) = input_loan_amount i"
    by (simp add: input_loan_amount_def)
  have mr: "interest_rate_var i / 100 / 12 = input_monthly_rate i"
    by (simp add: input_monthly_rate_def)
  show ?thesis
    unfolding calculate_def Let_def
    using v dp
    apply (simp only: if_True if_False not_True_eq_False not_not la mr pw dv err_bind_def
        sum.case annuity_total_interest_def)
    apply (simp split: sum.splits prod.splits)
    done
qed

lemma payoff_times_zero_principal:
  assumes "0 \<le> x"
  shows "payoff_times L r T 0 x = Inl ZeroDivisionError"
  using assms by (simp add: payoff_times_def py_div_def err_bind_def Let_def)

lemma payoff_times_extra:
  assumes "0 < x" and "0 < pp"
  shows "payoff_times L r T pp x =
     Inr (py_int (L / (pp + x)) div 12, py_int (L / (pp + x)) mod 12,
          (py_int (L / pp) - py_int (L / (pp + x))) div 12,
          (py_int (L / pp) - py_int (L / (pp + x))) mod 12,
          T - flat_model_interest L r (pp + x))"
  using assms
  by (simp add: payoff_times_def py_div_def err_bind_def Let_def flat_model_interest_def)

lemma payoff_times_no_extra:
  assumes "\<not> 0 < x" and "0 < pp"
  shows "payoff_times L r T pp x = Inr (py_int (L / (pp * 12)), 0, 0, 0, 0)"
  using assms by (simp add: payoff_times_def py_div_def err_bind_def)

lemma flat_loop_sum:
  "fst (interest_with_extra_loop r p xs (ti, rb))
     = ti + r * (\<Sum>k<length xs. rb - real k * p)"
proof (induction xs arbitrary: ti rb)
  case Nil
  show ?case by simp
next
  case (Cons x xs)
  have "(\<Sum>k<Suc (length xs). rb - real k * p)
          = rb + (\<Sum>k<length xs. rb - real (Suc k) * p)"
    by (subst sum.lessThan_Suc_shift) simp
  also have "(\<Sum>k<length xs. rb - real (Suc k) * p) = (\<Sum>k<length xs. rb - p - real k * p)"
    by (rule sum.cong [OF refl]) (simp add: algebra_simps)
  finally have "(\<Sum>k<Suc (length xs). rb - real k * p)
          = rb + (\<Sum>k<length xs. rb - p - real k * p)" .
  then show ?case
    by (simp add: Cons.IH Let_def algebra_simps)
qed

lemma flat_loop_closed:
  "fst (interest_with_extra_loop r p xs (ti, rb))
     = ti + r * (real (length xs) * rb - p * (real (length xs) * (real (length xs) - 1) / 2))"
proof (induction xs arbitrary: ti rb)
  case Nil
  show ?case by simp
next
  case (Cons x xs)
  show ?case
    by (simp add: Cons.IH Let_def field_simps)
qed

lemma py_int_nonneg: "0 \<le> x \<Longrightarrow> py_int x = \<lfloor>x\<rfloor>"
  by (simp add: py_int_def)

lemma flat_model_sum:
  assumes "0 \<le> L / p"
  shows "flat_model_interest L r p = r * (\<Sum>k<nat \<lfloor>L / p\<rfloor>. L - real k * p)"
  using assms by (simp add: flat_model_interest_def flat_loop_sum py_int_nonneg)

lemma flat_model_closed:
  assumes "0 \<le> L / p"
  shows "flat_model_interest L r p
          = r * (real (nat \<lfloor>L / p\<rfloor>) * L
                 - p * (real (nat \<lfloor>L / p\<rfloor>) * (real (nat \<lfloor>L / p\<rfloor>) - 1) / 2))"
  using assms by (simp add: flat_model_interest_def flat_loop_closed py_int_nonneg)

lemma flat_model_antimono:
  assumes L: "0 < L" and r: "0 \<le> r" and p1: "0 < p1" and p12: "p1 \<le> p2"
  shows "flat_model_interest L r p2 \<le> flat_model_interest L r p1"
proof -
  have p2: "0 < p2" using p1 p12 by simp
  let ?m1 = "nat \<lfloor>L / p1\<rfloor>" and ?m2 = "nat \<lfloor>L / p2\<rfloor>"
  have "L / p2 \<le> L / p1"
    using L p1 p12 by (simp add: frac_le)
  then have m: "?m2 \<le> ?m1"
    by (intro nat_mono floor_mono)
  have "(\<Sum>k<?m2. L - real k * p2) \<le> (\<Sum>k<?m2. L - real k * p1)"
    using p12 by (intro sum_mono) (simp add: mult_left_mono)
  also have "\<dots> \<le> (\<Sum>k<?m1. L - real k * p1)"
  proof (rule sum_mono2)
    show "finite {..<?m1}" by simp
    show "{..<?m2} \<subseteq> {..<?m1}" using m by simp
    fix k assume "k \<in> {..<?m1} - {..<?m2}"
    then have "k < ?m1" by simp
    then have "int k < \<lfloor>L / p1\<rfloor>" by simp
    then have "real k \<le> L / p1"
      by (metis floor_less_cancel of_int_of_nat_eq floor_of_nat order_less_imp_le
          linorder_not_less floor_mono)
    then have "real k * p1 \<le> L"
      using p1 by (simp add: pos_le_divide_eq)
    then show "0 \<le> L - real k * p1" by simp
  qed
  finally have "(\<Sum>k<?m2. L - real k * p2) \<le> (\<Sum>k<?m1. L - real k * p1)" .
  then have "r * (\<Sum>k<?m2. L - real k * p2) \<le> r * (\<Sum>k<?m1. L - real k * p1)"
    using r by (rule mult_left_mono)
  moreover have "0 \<le> L / p1" "0 \<le> L / p2" using L p1 p2 by simp_all
  ultimately show ?thesis
    by (simp add: flat_model_sum)
qed

lemma annuity_total_interest_le:
  fixes L r :: real
  assumes L: "0 \<le> L" and r: "0 < r"
  shows "annuity_total_interest L r \<le> 360 * r * L"
proof -
  define Q where "Q = (1 + r) ^ 360"
  have B: "1 + 360 * r \<le> Q"
    unfolding Q_def using Bernoulli_inequality [of r 360] r by simp
  have Qpos: "0 < Q" using B r by simp
  have pw: "(1 + r) powi (- 360) = inverse Q"
    unfolding Q_def by (simp add: power_int_minus)
  have d: "360 * r / (1 + 360 * r) \<le> 1 - inverse Q"
  proof -
    have "inverse Q \<le> inverse (1 + 360 * r)"
      using B r by (intro le_imp_inverse_le) simp_all
    moreover have "1 - inverse (1 + 360 * r) = 360 * r / (1 + 360 * r)"
      using r by (simp add: field_simps)
    ultimately show ?thesis by simp
  qed
  have dpos: "0 < 360 * r / (1 + 360 * r)" using r by simp
  have dd: "0 < 1 - inverse Q" using d dpos by simp
  have Lr: "0 \<le> L * r" using L r by simp
  have "L * r / (1 - inverse Q) \<le> L * r / (360 * r / (1 + 360 * r))"
    using d Lr mult_pos_pos [OF dd dpos] by (rule divide_left_mono)
  also have "\<dots> = L * (1 + 360 * r) / 360"
    using r by (simp add: field_simps)
  finally have "L * r / (1 - inverse Q) * 360 - L \<le> L * (1 + 360 * r) / 360 * 360 - L"
    by simp
  also have "\<dots> = 360 * r * L" by (simp add: algebra_simps)
  finally show ?thesis
    unfolding annuity_total_interest_def pw .
qed

lemma year_months_loop_fst:
  assumes "0 \<le> r"
  shows "yit \<le> fst (year_months_loop r p xs (yit, rb))"
proof (induction xs arbitrary: yit rb)
  case Nil
  show ?case by simp
next
  case (Cons x xs)
  show ?case
  proof (cases "rb \<le> 0")
    case True
    then show ?thesis by simp
  next
    case False
    then have "0 \<le> rb * r" using assms by simp
    with Cons.IH [of "yit + rb * r" "rb - p"] False show ?thesis
      by (simp add: Let_def)
  qed
qed

lemma years_loop_result:
  assumes "0 \<le> r" and "0 \<le> fx + fee"
    and "years_loop r p fx fee ys (rb, yi, yt) = (rb', yi', yt')"
    and "\<forall>t\<in>set yt. 0 \<le> t"
  shows "length yi' = length yi + length ys \<and> length yt' = length yt + length ys
       \<and> (\<forall>t\<in>set yt'. 0 \<le> t)"
  using assms(3,4)
proof (induction ys arbitrary: rb yi yt)
  case Nil
  then show ?case by simp
next
  case (Cons y ys)
  obtain yit rb1 where ym: "year_months_loop r p [0..11] (0, rb) = (yit, rb1)"
    by (cases "year_months_loop r p [0..11] (0, rb)")
  have "0 \<le> fst (year_months_loop r p [0..11] (0, rb))"
    using assms(1) by (rule year_months_loop_fst)
  then have yit: "0 \<le> yit" unfolding ym by simp
  from Cons.prems(1) have step:
    "years_loop r p fx fee ys (rb1, yi @ [yit], yt @ [fx + yit + fee]) = (rb', yi', yt')"
    by (simp only: years_loop.simps ym prod.case)
  have "\<forall>t\<in>set (yt @ [fx + yit + fee]). 0 \<le> t"
    using Cons.prems(2) yit assms(2) by auto
  from Cons.IH [OF step this] show ?case by simp
qed

lemma yearly_visualization_rows:
  fixes L r pp x fee :: real and years :: int
  assumes "0 \<le> r" and "0 \<le> pp" and "0 \<le> x" and "0 \<le> fee"
  defines "Y \<equiv> update_yearly_visualization L r years pp x fee"
  defines "n \<equiv> (if years > 0 then nat years else 1)"
  shows "length (ys_total Y) = n" and "length (ys_interest Y) = n"
    and "length (ys_base_principal Y) = n" and "length (ys_extra_principal Y) = n"
    and "\<forall>t\<in>set (ys_total Y). 0 \<le> t"
proof -
  let ?range = "if years > 0 then [1..years] else [1..1]"
  have len: "length ?range = n" by (simp add: n_def)
  obtain rb' yi' yt' where yl:
    "years_loop r (pp + x) (pp * 12 + x * 12) (fee * 12) ?range (L, [], []) = (rb', yi', yt')"
    by (cases "years_loop r (pp + x) (pp * 12 + x * 12) (fee * 12) ?range (L, [], [])")
  have fx: "0 \<le> (pp * 12 + x * 12) + fee * 12" using assms(2,3,4) by simp
  from years_loop_result [OF assms(1) fx yl]
  have res: "length yi' = length ?range" "length yt' = length ?range" "\<forall>t\<in>set yt'. 0 \<le> t"
    by simp_all
  have Y: "Y = \<lparr>ys_base_principal = replicate (length ?range) (pp * 12),
              ys_extra_principal = replicate (length ?range) (x * 12),
              ys_interest = yi', ys_total = yt'\<rparr>"
    unfolding Y_def update_yearly_visualization_def Let_def yl by simp
  show "length (ys_total Y) = n" "length (ys_interest Y) = n"
    "length (ys_base_principal Y) = n" "length (ys_extra_principal Y) = n"
    "\<forall>t\<in>set (ys_total Y). 0 \<le> t"
    unfolding Y using res len by simp_all
qed

lemma calculate_completes:
  assumes v: "validate_inputs i" and pp: "0 < principal_payment_var i"
  shows "\<exists>y m ys ms s.
     payoff_times (input_loan_amount i) (input_monthly_rate i)
       (annuity_total_interest (input_loan_amount i) (input_monthly_rate i))
       (principal_payment_var i) (extra_payment_var i) = Inr (y, m, ys, ms, s)
   \<and> 0 \<le> m \<and> m < 12 \<and> 0 \<le> ms \<and> ms < 12
   \<and> calculate i = Calculated
        \<lparr>cv_loan_amount = input_loan_amount i,
         cv_monthly_payment = principal_payment_var i + extra_payment_var i
            + input_loan_amount i * input_monthly_rate i + monthly_fee_var i,
         cv_total_interest =
            annuity_total_interest (input_loan_amount i) (input_monthly_rate i),
         cv_years_to_payoff = y, cv_months_to_payoff = m,
         cv_years_saved = ys, cv_months_saved = ms, cv_interest_saved = s,
         cv_yearly = update_yearly_visualization (input_loan_amount i)
            (input_monthly_rate i) y (principal_payment_var i)
            (extra_payment_var i) (monthly_fee_var i)\<rparr>"
proof (cases "0 < extra_payment_var i")
  case True
  note pt = payoff_times_extra [OF True pp]
  show ?thesis
    unfolding calculate_valid [OF v] pt by simp
next
  case False
  note pt = payoff_times_no_extra [OF False pp]
  show ?thesis
    unfolding calculate_valid [OF v] pt by simp
qed

lemma projection_values:
  assumes v: "validate_inputs i" and pp: "0 < principal_payment_var i"
  shows "calc_value time_saved_months i =
           Some (if 0 < extra_payment_var i
                 then \<lfloor>input_loan_amount i / principal_payment_var i\<rfloor>
                      - \<lfloor>input_loan_amount i / (principal_payment_var i + extra_payment_var i)\<rfloor>
                 else 0)" (is ?A)
    and "calc_value cv_interest_saved i =
           Some (if 0 < extra_payment_var i
                 then annuity_total_interest (input_loan_amount i) (input_monthly_rate i)
                      - flat_model_interest (input_loan_amount i) (input_monthly_rate i)
                          (principal_payment_var i + extra_payment_var i)
                 else 0)" (is ?B)
    and "calc_value payoff_months i =
           Some (if 0 < extra_payment_var i
                 then \<lfloor>input_loan_amount i / (principal_payment_var i + extra_payment_var i)\<rfloor>
                 else \<lfloor>input_loan_amount i / (principal_payment_var i * 12)\<rfloor> * 12)" (is ?C)
    and "calc_value cv_years_to_payoff i =
           Some (if 0 < extra_payment_var i
                 then \<lfloor>input_loan_amount i / (principal_payment_var i + extra_payment_var i)\<rfloor> div 12
                 else \<lfloor>input_loan_amount i / (principal_payment_var i * 12)\<rfloor>)" (is ?D)
proof -
  note f = valid_input_facts [OF v]
  let ?L = "input_loan_amount i" and ?pp = "principal_payment_var i"
    and ?x = "extra_payment_var i"
  have i1: "py_int (?L / ?pp) = \<lfloor>?L / ?pp\<rfloor>"
    using f(1) pp by (intro py_int_nonneg) simp
  have i2: "py_int (?L / (?pp + ?x)) = \<lfloor>?L / (?pp + ?x)\<rfloor>"
    using f(1,4) pp by (intro py_int_nonneg) simp
  have i3: "py_int (?L / (?pp * 12)) = \<lfloor>?L / (?pp * 12)\<rfloor>"
    using f(1) pp by (intro py_int_nonneg) simp
  have "?A \<and> ?B \<and> ?C \<and> ?D"
  proof (cases "0 < ?x")
    case True
    note pt = payoff_times_extra [OF True pp]
    show ?thesis
      unfolding calc_value_def calculate_valid [OF v] pt i1 i2 using True
      by (simp add: time_saved_months_def payoff_months_def)
  next
    case False
    note pt = payoff_times_no_extra [OF False pp]
    show ?thesis
      unfolding calc_value_def calculate_valid [OF v] pt i3 using False
      by (simp add: time_saved_months_def payoff_months_def)
  qed
  then show ?A and ?B and ?C and ?D by blast+
qed

lemma yearly_rows_value:
  assumes v: "validate_inputs i" and pp: "0 < principal_payment_var i"
  shows "\<exists>y. calc_value cv_years_to_payoff i = Some y
      \<and> calc_value yearly_rows i = Some (if y > 0 then nat y else 1)
      \<and> calc_value (\<lambda>v. length (ys_interest (cv_yearly v))) i
           = Some (if y > 0 then nat y else 1)
      \<and> calc_value (\<lambda>v. length (ys_base_principal (cv_yearly v))) i
           = Some (if y > 0 then nat y else 1)
      \<and> calc_value (\<lambda>v. length (ys_extra_principal (cv_yearly v))) i
           = Some (if y > 0 then nat y else 1)
      \<and> calc_value (\<lambda>v. \<forall>t\<in>set (ys_total (cv_yearly v)). 0 \<le> t) i = Some True"
proof -
  note f = valid_input_facts [OF v]
  from calculate_completes [OF v pp] obtain y m ys ms s where
    calc: "calculate i = Calculated
        \<lparr>cv_loan_amount = input_loan_amount i,
         cv_monthly_payment = principal_payment_var i + extra_payment_var i
            + input_loan_amount i * input_monthly_rate i + monthly_fee_var i,
         cv_total_interest =
            annuity_total_interest (input_loan_amount i) (input_monthly_rate i),
         cv_years_to_payoff = y, cv_months_to_payoff = m,
         cv_years_saved = ys, cv_months_saved = ms, cv_interest_saved = s,
         cv_yearly = update_yearly_visualization (input_loan_amount i)
            (input_monthly_rate i) y (principal_payment_var i)
            (extra_payment_var i) (monthly_fee_var i)\<rparr>"
    by blast
  have r: "0 \<le> input_monthly_rate i" using f(2) by simp
  note rows = yearly_visualization_rows [OF r f(3,4,5), of "input_loan_amount i" y]
  show ?thesis
    unfolding calc_value_def calc using rows by (simp add: yearly_rows_def)
qed

lemma zero_principal_payment_raises:
  assumes "validate_inputs i" and "principal_payment_var i = 0"
  shows "calculate i = CalculationError ZeroDivisionError"
  unfolding calculate_valid [OF assms(1)] assms(2)
  by (simp add: payoff_times_zero_principal valid_input_facts(4) [OF assms(1)])

text \<open>
  Claim C1 fails on the code.  With a principal payment of \<open>0\<close> and no extra payment
  (loan sought 200000, automatic down payment, 4.5 percent) \<open>validate_inputs\<close> accepts
  the input and \<open>calculate\<close> divides by zero: the \<open>ZeroDivisionError\<close> is raised inside
  the \<open>try\<close> block and reported by the catch-all handler.
\<close>

theorem zero_principal_payment_divides_by_zero:
  "validate_inputs \<lparr>loan_seeking_var = 200000, down_payment_var = 30000,
      down_payment_mode = Auto, interest_rate_var = 4.5, principal_payment_var = 0,
      extra_payment_var = 0, monthly_fee_var = 50\<rparr>
   \<and> calculate \<lparr>loan_seeking_var = 200000, down_payment_var = 30000,
      down_payment_mode = Auto, interest_rate_var = 4.5, principal_payment_var = 0,
      extra_payment_var = 0, monthly_fee_var = 50\<rparr> = CalculationError ZeroDivisionError"
proof -
  let ?i = "\<lparr>loan_seeking_var = 200000, down_payment_var = 30000,
      down_payment_mode = Auto, interest_rate_var = 4.5, principal_payment_var = 0,
      extra_payment_var = 0, monthly_fee_var = 50\<rparr>"
  have v: "validate_inputs ?i" by (simp add: validate_inputs_def)
  have "calculate ?i = CalculationError ZeroDivisionError"
    using v by (rule zero_principal_payment_raises) simp
  with v show ?thesis by simp
qed

lemma scenario_facts:
  defines "i \<equiv> \<lparr>loan_seeking_var = 200000, down_payment_var = 30000,
      down_payment_mode = Auto, interest_rate_var = 4.5, principal_payment_var = 200,
      extra_payment_var = 300, monthly_fee_var = 50\<rparr>"
  shows "validate_inputs i" and "input_loan_amount i = 170000"
    and "input_monthly_rate i = 3 / 800"
  by (simp_all add: i_def validate_inputs_def input_loan_amount_def input_monthly_rate_def)

text \<open>
  Claim C3 fails.  For a loan of 170000 at 4.5 percent with a principal payment of 200
  and an extra payment of 300 the interest saved that \<open>calculate\<close> reports is not the
  flat-model baseline interest minus the interest paid: its baseline is the interest of
  the 360-month annuity.
\<close>

theorem interest_saved_not_flat_baseline:
  "calc_value cv_interest_saved \<lparr>loan_seeking_var = 200000, down_payment_var = 30000,
      down_payment_mode = Auto, interest_rate_var = 4.5, principal_payment_var = 200,
      extra_payment_var = 300, monthly_fee_var = 50\<rparr> \<noteq> None
   \<and> calc_value cv_interest_saved \<lparr>loan_seeking_var = 200000, down_payment_var = 30000,
      down_payment_mode = Auto, interest_rate_var = 4.5, principal_payment_var = 200,
      extra_payment_var = 300, monthly_fee_var = 50\<rparr>
     \<noteq> Some (spec_interest_saved 170000 (3 / 800) 200 300)"
proof -
  let ?i = "\<lparr>loan_seeking_var = 200000, down_payment_var = 30000,
      down_payment_mode = Auto, interest_rate_var = 4.5, principal_payment_var = 200,
      extra_payment_var = 300, monthly_fee_var = 50\<rparr>"
  note sf = scenario_facts
  have val: "calc_value cv_interest_saved ?i =
      Some (annuity_total_interest 170000 (3 / 800) - flat_model_interest 170000 (3 / 800) 500)"
    using projection_values(2) [OF sf(1)] unfolding sf(2,3) by simp
  have T: "annuity_total_interest 170000 (3 / 800) \<le> 229500"
    using annuity_total_interest_le [of 170000 "3 / 800"] by simp
  have F: "flat_model_interest 170000 (3 / 800) 200 = 1085025 / 4"
    by (simp add: flat_model_closed)
  have "annuity_total_interest 170000 (3 / 800) - flat_model_interest 170000 (3 / 800) 500
          \<noteq> spec_interest_saved 170000 (3 / 800) 200 300"
    unfolding spec_interest_saved_def using T F by simp
  with val show ?thesis by simp
qed

text \<open>
  Claim C3, amended.  For a valid input with a positive extra payment and a positive
  principal payment, the interest saved is the total interest of the 360-month annuity
  (the displayed total interest) minus the interest the flat model accrues with the
  principal payment plus the extra payment.
\<close>

theorem interest_saved_annuity_baseline:
  assumes "validate_inputs i" and "0 < extra_payment_var i" and "0 < principal_payment_var i"
  shows "calc_value cv_interest_saved i =
           Some (annuity_total_interest (input_loan_amount i) (input_monthly_rate i)
                 - flat_model_interest (input_loan_amount i) (input_monthly_rate i)
                     (principal_payment_var i + extra_payment_var i))
       \<and> calc_value cv_total_interest i =
           Some (annuity_total_interest (input_loan_amount i) (input_monthly_rate i))"
proof -
  from calculate_completes [OF assms(1,3)] have
    "calc_value cv_total_interest i =
           Some (annuity_total_interest (input_loan_amount i) (input_monthly_rate i))"
    by (auto simp: calc_value_def)
  with projection_values(2) [OF assms(1,3)] assms(2) show ?thesis by simp
qed

theorem interest_saved_annuity_baseline_witness:
  "calc_value cv_interest_saved \<lparr>loan_seeking_var = 200000, down_payment_var = 30000,
      down_payment_mode = Auto, interest_rate_var = 4.5, principal_payment_var = 200,
      extra_payment_var = 300, monthly_fee_var = 50\<rparr>
     = Some (annuity_total_interest 170000 (3 / 800) - flat_model_interest 170000 (3 / 800) 500)
   \<and> calc_value cv_total_interest \<lparr>loan_seeking_var = 200000, down_payment_var = 30000,
      down_payment_mode = Auto, interest_rate_var = 4.5, principal_payment_var = 200,
      extra_payment_var = 300, monthly_fee_var = 50\<rparr>
     = Some (annuity_total_interest 170000 (3 / 800))"
  using interest_saved_annuity_baseline [OF scenario_facts(1)]
  unfolding scenario_facts(2,3) by simp

text \<open>
  Claim C4 fails.  In the same scenario the payoff takes 340 months, the chart has 28
  rows, and the ceiling of \<open>340 / 12\<close> is 29: the number of rows is the number of whole
  years.
\<close>

theorem yearly_rows_not_ceiling:
  "calc_value payoff_months \<lparr>loan_seeking_var = 200000, down_payment_var = 30000,
      down_payment_mode = Auto, interest_rate_var = 4.5, principal_payment_var = 200,
      extra_payment_var = 300, monthly_fee_var = 50\<rparr> = Some 340
   \<and> calc_value yearly_rows \<lparr>loan_seeking_var = 200000, down_payment_var = 30000,
      down_payment_mode = Auto, interest_rate_var = 4.5, principal_payment_var = 200,
      extra_payment_var = 300, monthly_fee_var = 50\<rparr> = Some 28
   \<and> \<lceil>(340 :: real) / 12\<rceil> = 29"
proof -
  let ?i = "\<lparr>loan_seeking_var = 200000, down_payment_var = 30000,
      down_payment_mode = Auto, interest_rate_var = 4.5, principal_payment_var = 200,
      extra_payment_var = 300, monthly_fee_var = 50\<rparr>"
  note sf = scenario_facts
  have pp: "0 < principal_payment_var ?i" by simp
  have 1: "calc_value payoff_months ?i = Some 340"
    using projection_values(3) [OF sf(1) pp] unfolding sf(2) by simp
  have y: "calc_value cv_years_to_payoff ?i = Some 28"
    using projection_values(4) [OF sf(1) pp] unfolding sf(2) by simp
  from yearly_rows_value [OF sf(1) pp] y have 2: "calc_value yearly_rows ?i = Some 28"
    by auto
  have 3: "\<lceil>(340 :: real) / 12\<rceil> = 29" by simp
  from 1 2 3 show ?thesis by simp
qed

text \<open>
  Claim C4, amended.  For a valid input with a positive principal payment the yearly
  totals have \<open>max 1 (payoff months div 12)\<close> rows, in each of the four lists, and every
  row's total is non-negative.
\<close>

theorem yearly_rows_whole_years:
  assumes "validate_inputs i" and "0 < principal_payment_var i"
  shows "\<exists>v. calculate i = Calculated v
     \<and> int (length (ys_total (cv_yearly v))) = max 1 (payoff_months v div 12)
     \<and> length (ys_interest (cv_yearly v)) = length (ys_total (cv_yearly v))
     \<and> length (ys_base_principal (cv_yearly v)) = length (ys_total (cv_yearly v))
     \<and> length (ys_extra_principal (cv_yearly v)) = length (ys_total (cv_yearly v))
     \<and> (\<forall>t\<in>set (ys_total (cv_yearly v)). 0 \<le> t)"
proof -
  note f = valid_input_facts [OF assms(1)]
  from calculate_completes [OF assms] obtain y m ys ms s where
    m: "0 \<le> m" "m < 12"
    and calc: "calculate i = Calculated
        \<lparr>cv_loan_amount = input_loan_amount i,
         cv_monthly_payment = principal_payment_var i + extra_payment_var i
            + input_loan_amount i * input_monthly_rate i + monthly_fee_var i,
         cv_total_interest =
            annuity_total_interest (input_loan_amount i) (input_monthly_rate i),
         cv_years_to_payoff = y, cv_months_to_payoff = m,
         cv_years_saved = ys, cv_months_saved = ms, cv_interest_saved = s,
         cv_yearly = update_yearly_visualization (input_loan_amount i)
            (input_monthly_rate i) y (principal_payment_var i)
            (extra_payment_var i) (monthly_fee_var i)\<rparr>"
    by blast
  have r: "0 \<le> input_monthly_rate i" using f(2) by simp
  note rows = yearly_visualization_rows [OF r f(3,4,5), of "input_loan_amount i" y]
  have d: "(y * 12 + m) div 12 = y" using m by simp
  have "int (if y > 0 then nat y else 1) = max 1 y" by simp
  with rows d show ?thesis
    unfolding calc by (simp add: payoff_months_def)
qed

theorem yearly_rows_whole_years_witness:
  "\<exists>v. calculate \<lparr>loan_seeking_var = 200000, down_payment_var = 30000,
      down_payment_mode = Auto, interest_rate_var = 4.5, principal_payment_var = 200,
      extra_payment_var = 300, monthly_fee_var = 50\<rparr> = Calculated v
     \<and> int (length (ys_total (cv_yearly v))) = max 1 (payoff_months v div 12)
     \<and> (\<forall>t\<in>set (ys_total (cv_yearly v)). 0 \<le> t)"
  using yearly_rows_whole_years [OF scenario_facts(1)] by auto

lemma engine_mono:
  assumes v: "valid_engine self" and x: "extra_payment self \<le> x2"
  shows "\<exists>res1 self1 res2 self2.
      calculate_amortization self = Inr (res1, self1)
    \<and> calculate_amortization (self\<lparr>extra_payment := x2\<rparr>) = Inr (res2, self2)
    \<and> final_payment_month res2 \<le> final_payment_month res1
    \<and> total_interest res2 \<le> total_interest res1"
proof -
  let ?self2 = "self\<lparr>extra_payment := x2\<rparr>"
  let ?r = "interest_rate self / 100 / 12"
  let ?pay = "annuity_payment (loan_amount self) ?r (nat (term_years self * 12))"
  let ?ms = "[1..term_years self * 12]"
  let ?s1 = "\<lparr>ls_self = self, ls_balance = loan_amount self,
              ls_total_interest = 0, ls_schedule = []\<rparr>"
  let ?s2 = "\<lparr>ls_self = ?self2, ls_balance = loan_amount self,
              ls_total_interest = 0, ls_schedule = []\<rparr>"
  have v2: "valid_engine ?self2"
    using v x by (simp add: valid_engine_def)
  have p1: "calculate_monthly_payment self ?r (term_years self * 12) = Inr ?pay"
    by (rule valid_payment(1) [OF v])
  have p2: "calculate_monthly_payment ?self2 (interest_rate ?self2 / 100 / 12)
              (term_years ?self2 * 12) = Inr ?pay"
    using valid_payment(1) [OF v2] by simp
  note c1 = amortization_loop_result [OF p1]
  note c2 = amortization_loop_result [OF p2, simplified]
  have r: "0 \<le> ?r" using valid_facts(1) [OF v] by simp
  have "ls_balance ?s2 \<le> ls_balance ?s1" by simp
  moreover have "0 < ls_balance ?s2 \<longrightarrow>
      extra_payment (ls_self ?s1) \<le> extra_payment (ls_self ?s2)"
    using x by simp
  ultimately have m:
    "length (ls_schedule (amortization_loop ?r ?pay ?ms ?s2)) + length (ls_schedule ?s1)
       \<le> length (ls_schedule (amortization_loop ?r ?pay ?ms ?s1)) + length (ls_schedule ?s2)
     \<and> ls_total_interest (amortization_loop ?r ?pay ?ms ?s2) - ls_total_interest ?s2
       \<le> ls_total_interest (amortization_loop ?r ?pay ?ms ?s1) - ls_total_interest ?s1"
    by (rule loop_mono [OF r])
  show ?thesis
    unfolding c1 c2 using m by simp
qed

lemma projection_mono:
  assumes v: "validate_inputs i" and pp: "0 < principal_payment_var i"
    and y: "extra_payment_var i \<le> y2"
  shows "\<exists>t1 t2. calc_value time_saved_months i = Some t1
      \<and> calc_value time_saved_months (i\<lparr>extra_payment_var := y2\<rparr>) = Some t2 \<and> t1 \<le> t2"
    and "0 < extra_payment_var i \<Longrightarrow>
      \<exists>s1 s2. calc_value cv_interest_saved i = Some s1
      \<and> calc_value cv_interest_saved (i\<lparr>extra_payment_var := y2\<rparr>) = Some s2 \<and> s1 \<le> s2"
proof -
  let ?i2 = "i\<lparr>extra_payment_var := y2\<rparr>"
  note f = valid_input_facts [OF v]
  have v2: "validate_inputs ?i2"
    using v y f(4) by (simp add: validate_inputs_def split: if_splits)
  have pp2: "0 < principal_payment_var ?i2" using pp by simp
  have L2: "input_loan_amount ?i2 = input_loan_amount i"
    by (simp add: input_loan_amount_def split: dp_mode.splits)
  have r2: "input_monthly_rate ?i2 = input_monthly_rate i"
    by (simp add: input_monthly_rate_def)
  let ?L = "input_loan_amount i" and ?pp = "principal_payment_var i"
    and ?x = "extra_payment_var i"
  note a1 = projection_values(1,2) [OF v pp]
  note a2 = projection_values(1,2) [OF v2 pp2, unfolded L2 r2, simplified]
  have fl: "\<lfloor>?L / (?pp + b)\<rfloor> \<le> \<lfloor>?L / (?pp + a)\<rfloor>" if "0 \<le> a" "a \<le> b" for a b
  proof -
    have "?L / (?pp + b) \<le> ?L / (?pp + a)"
      using f(1) pp that by (intro divide_left_mono) (simp_all add: add_pos_nonneg)
    then show ?thesis by (rule floor_mono)
  qed
  have t: "(if 0 < ?x then \<lfloor>?L / ?pp\<rfloor> - \<lfloor>?L / (?pp + ?x)\<rfloor> else 0)
          \<le> (if 0 < y2 then \<lfloor>?L / ?pp\<rfloor> - \<lfloor>?L / (?pp + y2)\<rfloor> else 0)"
    using fl [of 0 y2] fl [of ?x y2] y f(4) by auto
  show "\<exists>t1 t2. calc_value time_saved_months i = Some t1
      \<and> calc_value time_saved_months ?i2 = Some t2 \<and> t1 \<le> t2"
    unfolding a1 a2 using t by (simp split: if_splits)
  show "\<exists>s1 s2. calc_value cv_interest_saved i = Some s1
      \<and> calc_value cv_interest_saved ?i2 = Some s2 \<and> s1 \<le> s2"
    if x0: "0 < ?x"
  proof -
    have y0: "0 < y2" using x0 y by simp
    have r: "0 \<le> input_monthly_rate i" using f(2) by simp
    have p: "0 < ?pp + ?x" using pp x0 by simp
    have "?pp + ?x \<le> ?pp + y2" using y by simp
    from flat_model_antimono [OF f(1) r p this]
    show ?thesis
      unfolding a1 a2 using x0 y0 by simp
  qed
qed

text \<open>
  Claim C7 fails for the interest saved.  For a loan of 170000 at 4.5 percent with a
  principal payment of 100, the interest saved is \<open>0\<close> without extra payment and negative
  with an extra payment of 70.
\<close>

theorem interest_saved_not_monotone:
  "calc_value cv_interest_saved \<lparr>loan_seeking_var = 200000, down_payment_var = 30000,
      down_payment_mode = Auto, interest_rate_var = 4.5, principal_payment_var = 100,
      extra_payment_var = 0, monthly_fee_var = 50\<rparr> = Some 0
   \<and> calc_value cv_interest_saved \<lparr>loan_seeking_var = 200000, down_payment_var = 30000,
      down_payment_mode = Auto, interest_rate_var = 4.5, principal_payment_var = 100,
      extra_payment_var = 70, monthly_fee_var = 50\<rparr> \<noteq> None
   \<and> the (calc_value cv_interest_saved \<lparr>loan_seeking_var = 200000, down_payment_var = 30000,
      down_payment_mode = Auto, interest_rate_var = 4.5, principal_payment_var = 100,
      extra_payment_var = 70, monthly_fee_var = 50\<rparr>) < 0"
proof -
  let ?i1 = "\<lparr>loan_seeking_var = 200000, down_payment_var = 30000,
      down_payment_mode = Auto, interest_rate_var = 4.5, principal_payment_var = 100,
      extra_payment_var = 0, monthly_fee_var = 50\<rparr>"
  let ?i2 = "\<lparr>loan_seeking_var = 200000, down_payment_var = 30000,
      down_payment_mode = Auto, interest_rate_var = 4.5, principal_payment_var = 100,
      extra_payment_var = 70, monthly_fee_var = 50\<rparr>"
  have v1: "validate_inputs ?i1" and v2: "validate_inputs ?i2"
    by (simp_all add: validate_inputs_def)
  have L: "input_loan_amount ?i2 = 170000" and r: "input_monthly_rate ?i2 = 3 / 800"
    by (simp_all add: input_loan_amount_def input_monthly_rate_def)
  have 1: "calc_value cv_interest_saved ?i1 = Some 0"
    using projection_values(2) [OF v1] by simp
  have 2: "calc_value cv_interest_saved ?i2 =
      Some (annuity_total_interest 170000 (3 / 800) - flat_model_interest 170000 (3 / 800) 170)"
    using projection_values(2) [OF v2] unfolding L r by simp
  have T: "annuity_total_interest 170000 (3 / 800) \<le> 229500"
    using annuity_total_interest_le [of 170000 "3 / 800"] by simp
  have F: "flat_model_interest 170000 (3 / 800) 170 = 1276275 / 4"
    by (simp add: flat_model_closed)
  from 1 2 T F show ?thesis by simp
qed

text \<open>
  Claim C7, amended.  Raising the extra payment of valid parameters never raises the
  payoff month or the total interest of the schedule generator; for a valid input with
  a positive principal payment it never lowers the time saved of the payoff projection,
  and it never lowers the interest saved when the smaller extra payment is positive.
\<close>

theorem extra_payment_monotone:
  assumes "valid_engine self" and "extra_payment self \<le> x2"
    and "validate_inputs i" and "0 < principal_payment_var i" and "extra_payment_var i \<le> y2"
  shows "(\<exists>res1 self1 res2 self2.
            calculate_amortization self = Inr (res1, self1)
          \<and> calculate_amortization (self\<lparr>extra_payment := x2\<rparr>) = Inr (res2, self2)
          \<and> final_payment_month res2 \<le> final_payment_month res1
          \<and> total_interest res2 \<le> total_interest res1)
       \<and> (\<exists>t1 t2. calc_value time_saved_months i = Some t1
          \<and> calc_value time_saved_months (i\<lparr>extra_payment_var := y2\<rparr>) = Some t2
          \<and> t1 \<le> t2)
       \<and> (0 < extra_payment_var i \<longrightarrow>
            (\<exists>s1 s2. calc_value cv_interest_saved i = Some s1
              \<and> calc_value cv_interest_saved (i\<lparr>extra_payment_var := y2\<rparr>) = Some s2
              \<and> s1 \<le> s2))"
  using engine_mono [OF assms(1,2)] projection_mono [OF assms(3,4,5)] by blast

theorem extra_payment_monotone_witness:
  "(\<exists>res1 self1 res2 self2.
      calculate_amortization \<lparr>loan_amount = 170000, interest_rate = 4.5, term_years = 30,
        extra_payment = 100, monthly_fee = 50\<rparr> = Inr (res1, self1)
    \<and> calculate_amortization \<lparr>loan_amount = 170000, interest_rate = 4.5, term_years = 30,
        extra_payment = 300, monthly_fee = 50\<rparr> = Inr (res2, self2)
    \<and> final_payment_month res2 \<le> final_payment_month res1
    \<and> total_interest res2 \<le> total_interest res1)
   \<and> (\<exists>s1 s2.
        calc_value cv_interest_saved \<lparr>loan_seeking_var = 200000, down_payment_var = 30000,
          down_payment_mode = Auto, interest_rate_var = 4.5, principal_payment_var = 200,
          extra_payment_var = 100, monthly_fee_var = 50\<rparr> = Some s1
      \<and> calc_value cv_interest_saved \<lparr>loan_seeking_var = 200000, down_payment_var = 30000,
          down_payment_mode = Auto, interest_rate_var = 4.5, principal_payment_var = 200,
          extra_payment_var = 300, monthly_fee_var = 50\<rparr> = Some s2
      \<and> s1 \<le> s2)"
proof -
  let ?self = "\<lparr>loan_amount = 170000, interest_rate = 4.5, term_years = 30,
        extra_payment = 100, monthly_fee = 50\<rparr>"
  let ?i = "\<lparr>loan_seeking_var = 200000, down_payment_var = 30000,
          down_payment_mode = Auto, interest_rate_var = 4.5, principal_payment_var = 200,
          extra_payment_var = 100, monthly_fee_var = 50\<rparr>"
  have v: "valid_engine ?self" by (simp add: valid_engine_def)
  have x: "extra_payment ?self \<le> 300" by simp
  have vi: "validate_inputs ?i" by (simp add: validate_inputs_def)
  have pp: "0 < principal_payment_var ?i" and y: "extra_payment_var ?i \<le> 300" by simp_all
  from extra_payment_monotone [OF v x vi pp y] show ?thesis by simp
qed

text \<open>
  Claim C10.  Every entry's principal field is the payment minus the entry's interest,
  also at the clamp.  For a loan of 1000 at 30 percent over five years with an extra
  payment of \<open>9 / 20\<close> the schedule ends after 59 of 60 months, the last entry's
  principal field exceeds the balance reduction of that month, and the principal fields
  sum to more than the loan.
\<close>

theorem principal_field_unclamped:
  "(calculate_monthly_payment self (interest_rate self / 100 / 12) (term_years self * 12)
       = Inr pay \<longrightarrow>
     (\<exists>res self'. calculate_amortization self = Inr (res, self')
        \<and> (\<forall>e\<in>set (schedule res). e_principal e = pay - e_interest e)))
   \<and> (\<exists>res self'.
        calculate_amortization \<lparr>loan_amount = 1000, interest_rate = 30, term_years = 5,
          extra_payment = 9 / 20, monthly_fee = 0\<rparr> = Inr (res, self')
      \<and> length (schedule res) = 59
      \<and> e_balance (last (butlast (schedule res))) - e_balance (last (schedule res))
          < e_principal (last (schedule res))
      \<and> 1000 < sum_list (map e_principal (schedule res)))"
proof -
  have 1: "\<exists>res self'. calculate_amortization self = Inr (res, self')
        \<and> (\<forall>e\<in>set (schedule res). e_principal e = pay - e_interest e)"
    if p: "calculate_monthly_payment self (interest_rate self / 100 / 12)
             (term_years self * 12) = Inr pay"
  proof -
    from amortization_run [OF p] obtain es self' where
      calc: "calculate_amortization self =
        Inr (\<lparr>schedule = es, total_interest = sum_list (map e_interest es),
              final_payment_month = length es\<rparr>, self')"
      and run: "run_from (interest_rate self / 100 / 12) pay (loan_amount self)
                  (extra_payment self) es"
      by blast
    from run_principal [OF run] calc show ?thesis by simp
  qed
  from early_payoff_principal_example have 2: "\<exists>res self'.
        calculate_amortization \<lparr>loan_amount = 1000, interest_rate = 30, term_years = 5,
          extra_payment = 9 / 20, monthly_fee = 0\<rparr> = Inr (res, self')
      \<and> length (schedule res) = 59
      \<and> e_balance (last (butlast (schedule res))) - e_balance (last (schedule res))
          < e_principal (last (schedule res))
      \<and> 1000 < sum_list (map e_principal (schedule res))"
    by simp
  from 1 2 show ?thesis by blast
qed

theorem principal_field_unclamped_witness:
  "\<exists>res self'.
      calculate_amortization \<lparr>loan_amount = 1000, interest_rate = 30, term_years = 1,
        extra_payment = 2000, monthly_fee = 0\<rparr> = Inr (res, self')
    \<and> (\<forall>e\<in>set (schedule res).
          e_principal e = annuity_payment 1000 (30 / 100 / 12) 12 - e_interest e)"
proof -
  let ?self = "\<lparr>loan_amount = 1000, interest_rate = 30, term_years = 1,
        extra_payment = 2000, monthly_fee = 0\<rparr>"
  have v: "valid_engine ?self" by (simp add: valid_engine_def)
  have "calculate_monthly_payment ?self (interest_rate ?self / 100 / 12)
          (term_years ?self * 12) = Inr (annuity_payment 1000 (30 / 100 / 12) 12)"
    using valid_payment(1) [OF v] by simp
  with principal_field_unclamped [of ?self "annuity_payment 1000 (30 / 100 / 12) 12"]
  show ?thesis by blast
qed

end
